theory Spec2Isabelle
  imports Complex_Main
begin

section \<open>Height-weighted aggregation of a CAPPI stack\<close>

text \<open>
  The computation verified here is the last code cell of
  \<^verbatim>\<open>notebooks/pyart/answer_question_pyart_meteoswiss.ipynb\<close>:
  \<^verbatim>\<open>
  weighting = np.exp(-0.5*  cappi_qpe.z['data'] / 1000)

  qpe_ground = weighting[:,None,None]*cappi_qpe.fields['radar_estimated_rain_rate']['data']
  qpe_ground = np.nansum(qpe_ground, axis = 0) / np.sum(weighting)
  \<close>
  The cell is embedded twice. In the first embedding arithmetic is exact: a finite
  float is a real number and no operation rounds, overflows or underflows; it states
  what the cell computes as a formula. In the second embedding every operation is
  rounded to binary64, so that underflow of the weights to 0.0, overflow to an
  infinity and the rounding of products and quotients are part of the result.
\<close>

subsection \<open>Floats and arrays\<close>

text \<open>
  Modelled from the spec: the field array handed over by the external gridder
  (\<^verbatim>\<open>pyart.map.grid_from_radars\<close>, not part of this repository) is an array of floats
  in which an undefined voxel is not-a-number. A float is a finite number,
  not-a-number or one of the two infinities.
\<close>

datatype npfloat = Fin real | NaN | PInf | NInf

text \<open>The only failure of the cell: numpy's ValueError "operands could not be broadcast together".\<close>

datatype error = BroadcastError

text \<open>A 3-D array with its shape (an array with zero levels still has ny and nx).\<close>

record grid3 =
  nz :: nat
  ny :: nat
  nx :: nat
  cells :: "npfloat list list list"

definition wf_grid :: "grid3 \<Rightarrow> bool" where
  "wf_grid g \<longleftrightarrow>
     length (cells g) = nz g \<and>
     (\<forall>lev \<in> set (cells g). length lev = ny g \<and> (\<forall>row \<in> set lev. length row = nx g))"




subsection \<open>Float operations\<close>

text \<open>Product of a (finite) weight and a float.\<close>

fun np_mul :: "real \<Rightarrow> npfloat \<Rightarrow> npfloat" where
  "np_mul w (Fin x) = Fin (w * x)"
| "np_mul w NaN = NaN"
| "np_mul w PInf = (if 0 < w then PInf else if w < 0 then NInf else NaN)"
| "np_mul w NInf = (if 0 < w then NInf else if w < 0 then PInf else NaN)"

fun np_add :: "npfloat \<Rightarrow> npfloat \<Rightarrow> npfloat" where
  "np_add (Fin a) (Fin b) = Fin (a + b)"
| "np_add NaN _ = NaN"
| "np_add _ NaN = NaN"
| "np_add PInf NInf = NaN"
| "np_add NInf PInf = NaN"
| "np_add PInf _ = PInf"
| "np_add _ PInf = PInf"
| "np_add NInf _ = NInf"
| "np_add _ NInf = NInf"

text \<open>
  \<^verbatim>\<open>np.nansum\<close> of a 1-D slice: not-a-number is replaced by zero, then the slice is
  summed; the sum of an empty slice is 0.0.
\<close>

definition nansum :: "npfloat list \<Rightarrow> npfloat" where
  "nansum xs = foldl np_add (Fin 0) (map (\<lambda>x. if x = NaN then Fin 0 else x) xs)"

text \<open>
  Quotient of a float by the (finite) sum of the weights. numpy does not raise on a
  zero divisor: 0/0 is not-a-number and a nonzero number over zero is an infinity.
  The divisor of the cell is a sum of exponentials, so a zero divisor is +0.0.
\<close>

fun np_div :: "npfloat \<Rightarrow> real \<Rightarrow> npfloat" where
  "np_div (Fin a) b =
     (if b \<noteq> 0 then Fin (a / b)
      else if a = 0 then NaN else if 0 < a then PInf else NInf)"
| "np_div NaN b = NaN"
| "np_div PInf b = (if 0 \<le> b then PInf else NInf)"
| "np_div NInf b = (if 0 \<le> b then NInf else PInf)"

subsection \<open>The cell\<close>

text \<open>
  \<^verbatim>\<open>weighting = np.exp(-0.5 * z / 1000)\<close>. The notebook writes the decay scale as the
  literal 1000; \<open>weighting_at\<close> takes it as a parameter and \<open>weighting\<close> is the
  notebook's instance. The altitudes come from the gridder's finite limits
  (\<^verbatim>\<open>zmin = 500\<close>, \<^verbatim>\<open>zmax = 8000\<close>) and are finite. \<open>weighting_at\<close> gives the
  weights of the code for a scale other than 0: dividing the array by zero raises
  nothing in numpy, but the weights are then infinite or not-a-number, which a list
  of reals cannot express.
\<close>

definition weighting_at :: "real \<Rightarrow> real list \<Rightarrow> real list" where
  "weighting_at scale z = map (\<lambda>a. exp (- 0.5 * a / scale)) z"

definition weighting :: "real list \<Rightarrow> real list" where
  "weighting z = weighting_at 1000 z"

text \<open>
  numpy's broadcasting of the leading axis of \<^verbatim>\<open>weighting[:,None,None]\<close>, of shape
  (m, 1, 1), against the data of shape (nz, ny, nx): equal lengths agree, a length
  of 1 stretches to the other one, anything else raises.
\<close>

definition broadcast_dim :: "nat \<Rightarrow> nat \<Rightarrow> error + nat" where
  "broadcast_dim a b =
     (if a = b then Inr a
      else if a = 1 then Inr b
      else if b = 1 then Inr a
      else Inl BroadcastError)"

text \<open>\<^verbatim>\<open>weighting[:,None,None] * data\<close>: a new array, one weight per level.\<close>

definition weighted_levels :: "real list \<Rightarrow> grid3 \<Rightarrow> error + grid3" where
  "weighted_levels w g =
     (case broadcast_dim (length w) (nz g) of
        Inl e \<Rightarrow> Inl e
      | Inr bz \<Rightarrow>
          Inr \<lparr> nz = bz, ny = ny g, nx = nx g,
                cells = map (\<lambda>k. map (\<lambda>i. map (\<lambda>j.
                          np_mul (w ! (if length w = 1 then 0 else k))
                                 (cells g ! (if nz g = 1 then 0 else k) ! i ! j))
                        [0..<nx g]) [0..<ny g]) [0..<bz] \<rparr>)"

text \<open>\<^verbatim>\<open>np.nansum(p, axis = 0)\<close>: a 2-D array of shape (ny, nx).\<close>

definition nansum_axis0 :: "grid3 \<Rightarrow> npfloat list list" where
  "nansum_axis0 p =
     map (\<lambda>i. map (\<lambda>j. nansum (map (\<lambda>k. cells p ! k ! i ! j) [0..<nz p])) [0..<nx p])
       [0..<ny p]"

text \<open>\<^verbatim>\<open>np.sum(weighting)\<close>.\<close>

definition np_sum :: "real list \<Rightarrow> real" where
  "np_sum w = sum_list w"

text \<open>The two assignments to \<^verbatim>\<open>qpe_ground\<close>, for the weights \<open>w\<close>.\<close>

definition aggregate :: "real list \<Rightarrow> grid3 \<Rightarrow> error + npfloat list list" where
  "aggregate w g =
     (case weighted_levels w g of
        Inl e \<Rightarrow> Inl e
      | Inr p \<Rightarrow> Inr (map (map (\<lambda>x. np_div x (np_sum w))) (nansum_axis0 p)))"

definition qpe_ground_at :: "real \<Rightarrow> real list \<Rightarrow> grid3 \<Rightarrow> error + npfloat list list" where
  "qpe_ground_at scale z g = aggregate (weighting_at scale z) g"

definition qpe_ground :: "real list \<Rightarrow> grid3 \<Rightarrow> error + npfloat list list" where
  "qpe_ground z g = aggregate (weighting z) g"

text \<open>Every value of the grid multiplied by the constant \<open>c\<close>; not-a-number stays so.\<close>

definition scale_cells :: "real \<Rightarrow> grid3 \<Rightarrow> grid3" where
  "scale_cells c g = g \<lparr> cells := map (map (map (np_mul c))) (cells g) \<rparr>"

subsection \<open>Binary64 arithmetic\<close>

text \<open>
  A finite binary64 number is the real number it denotes, so the two zeros are one
  number. \<open>fl\<close> rounds a real to binary64 as IEEE 754 does by default: to the nearest
  number with a 53-bit significand, a tie going to the even significand; below
  \<open>2 powi emin\<close> the spacing stays that of the smallest normal numbers (subnormals,
  and 0.0 on underflow), and a rounded magnitude of \<open>2 powi emax\<close> or more is an
  infinity.
\<close>

definition round_even :: "real \<Rightarrow> int" where
  "round_even t =
     (let f = \<lfloor>t\<rfloor>; d = t - real_of_int f
      in if d < 1/2 then f else if 1/2 < d then f + 1 else if even f then f else f + 1)"

definition emin :: int where
  "emin = - 1022"

definition emax :: int where
  "emax = 1024"

definition expo :: "real \<Rightarrow> int" where
  "expo x = (if x = 0 then emin else max \<lfloor>log 2 \<bar>x\<bar>\<rfloor> emin)"

definition rnd :: "real \<Rightarrow> real" where
  "rnd x = real_of_int (round_even (x / 2 powi (expo x - 52))) * 2 powi (expo x - 52)"

definition fl :: "real \<Rightarrow> npfloat" where
  "fl x =
     (if x = 0 then Fin 0
      else if 2 powi emax \<le> rnd x then PInf
      else if rnd x \<le> - (2 powi emax) then NInf
      else Fin (rnd x))"

text \<open>The largest finite binary64 number.\<close>

definition max_float :: real where
  "max_float = (2 ^ 53 - 1) * 2 powi 971"

text \<open>The order of the floats other than not-a-number.\<close>

fun np_le :: "npfloat \<Rightarrow> npfloat \<Rightarrow> bool" where
  "np_le NaN _ = False"
| "np_le _ NaN = False"
| "np_le NInf _ = True"
| "np_le _ PInf = True"
| "np_le (Fin a) (Fin b) = (a \<le> b)"
| "np_le PInf _ = False"
| "np_le _ NInf = False"

text \<open>
  The operations of the cell on floats: the exact result, rounded. A divisor that is
  zero is +0.0 (the divisor of the cell is a sum of exponentials).
\<close>

fun np_mul64 :: "npfloat \<Rightarrow> npfloat \<Rightarrow> npfloat" where
  "np_mul64 (Fin a) (Fin b) = fl (a * b)"
| "np_mul64 NaN _ = NaN"
| "np_mul64 _ NaN = NaN"
| "np_mul64 PInf (Fin b) = (if 0 < b then PInf else if b < 0 then NInf else NaN)"
| "np_mul64 NInf (Fin b) = (if 0 < b then NInf else if b < 0 then PInf else NaN)"
| "np_mul64 (Fin a) PInf = (if 0 < a then PInf else if a < 0 then NInf else NaN)"
| "np_mul64 (Fin a) NInf = (if 0 < a then NInf else if a < 0 then PInf else NaN)"
| "np_mul64 PInf PInf = PInf"
| "np_mul64 PInf NInf = NInf"
| "np_mul64 NInf PInf = NInf"
| "np_mul64 NInf NInf = PInf"

fun np_add64 :: "npfloat \<Rightarrow> npfloat \<Rightarrow> npfloat" where
  "np_add64 (Fin a) (Fin b) = fl (a + b)"
| "np_add64 NaN _ = NaN"
| "np_add64 _ NaN = NaN"
| "np_add64 PInf NInf = NaN"
| "np_add64 NInf PInf = NaN"
| "np_add64 PInf _ = PInf"
| "np_add64 _ PInf = PInf"
| "np_add64 NInf _ = NInf"
| "np_add64 _ NInf = NInf"

fun np_div64 :: "npfloat \<Rightarrow> npfloat \<Rightarrow> npfloat" where
  "np_div64 (Fin a) (Fin b) =
     (if b \<noteq> 0 then fl (a / b)
      else if a = 0 then NaN else if 0 < a then PInf else NInf)"
| "np_div64 NaN _ = NaN"
| "np_div64 _ NaN = NaN"
| "np_div64 (Fin a) PInf = Fin 0"
| "np_div64 (Fin a) NInf = Fin 0"
| "np_div64 PInf (Fin b) = (if 0 \<le> b then PInf else NInf)"
| "np_div64 NInf (Fin b) = (if 0 \<le> b then NInf else PInf)"
| "np_div64 PInf PInf = NaN"
| "np_div64 PInf NInf = NaN"
| "np_div64 NInf PInf = NaN"
| "np_div64 NInf NInf = NaN"

text \<open>
  numpy is not part of this repository. Its \<^verbatim>\<open>exp\<close> is taken as the exponential
  rounded to binary64, and its sums as additions from the first element on.
\<close>

fun np_exp64 :: "npfloat \<Rightarrow> npfloat" where
  "np_exp64 (Fin t) = fl (exp t)"
| "np_exp64 NaN = NaN"
| "np_exp64 PInf = PInf"
| "np_exp64 NInf = Fin 0"

definition add_reduce :: "npfloat list \<Rightarrow> npfloat" where
  "add_reduce xs = (case xs of [] \<Rightarrow> Fin 0 | x # rest \<Rightarrow> foldl np_add64 x rest)"

subsection \<open>The cell in binary64\<close>

text \<open>
  \<^verbatim>\<open>np.exp(-0.5 * z / 1000)\<close>, element by element: the product, the quotient and the
  exponential are each rounded. The scale is the literal 1000 of the notebook.
\<close>

definition weight64 :: "real \<Rightarrow> npfloat" where
  "weight64 a = np_exp64 (np_div64 (np_mul64 (Fin (- 0.5)) (Fin a)) (Fin 1000))"

definition weighting64 :: "real list \<Rightarrow> npfloat list" where
  "weighting64 z = map weight64 z"

text \<open>\<^verbatim>\<open>weighting[:,None,None] * data\<close>, \<^verbatim>\<open>np.nansum(..., axis = 0)\<close>, \<^verbatim>\<open>np.sum(weighting)\<close> and the quotient.\<close>

definition weighted_levels64 :: "npfloat list \<Rightarrow> grid3 \<Rightarrow> error + grid3" where
  "weighted_levels64 w g =
     (case broadcast_dim (length w) (nz g) of
        Inl e \<Rightarrow> Inl e
      | Inr bz \<Rightarrow>
          Inr \<lparr> nz = bz, ny = ny g, nx = nx g,
                cells = map (\<lambda>k. map (\<lambda>i. map (\<lambda>j.
                          np_mul64 (w ! (if length w = 1 then 0 else k))
                                   (cells g ! (if nz g = 1 then 0 else k) ! i ! j))
                        [0..<nx g]) [0..<ny g]) [0..<bz] \<rparr>)"

definition nansum64 :: "npfloat list \<Rightarrow> npfloat" where
  "nansum64 xs = add_reduce (map (\<lambda>x. if x = NaN then Fin 0 else x) xs)"

definition nansum64_axis0 :: "grid3 \<Rightarrow> npfloat list list" where
  "nansum64_axis0 p =
     map (\<lambda>i. map (\<lambda>j. nansum64 (map (\<lambda>k. cells p ! k ! i ! j) [0..<nz p])) [0..<nx p])
       [0..<ny p]"

definition np_sum64 :: "npfloat list \<Rightarrow> npfloat" where
  "np_sum64 w = add_reduce w"

definition aggregate64 :: "npfloat list \<Rightarrow> grid3 \<Rightarrow> error + npfloat list list" where
  "aggregate64 w g =
     (case weighted_levels64 w g of
        Inl e \<Rightarrow> Inl e
      | Inr p \<Rightarrow> Inr (map (map (\<lambda>x. np_div64 x (np_sum64 w))) (nansum64_axis0 p)))"

definition qpe_ground64 :: "real list \<Rightarrow> grid3 \<Rightarrow> error + npfloat list list" where
  "qpe_ground64 z g = aggregate64 (weighting64 z) g"

text \<open>A grid whose cells are not-a-number or finite binary64 numbers.\<close>

definition in_range :: "grid3 \<Rightarrow> bool" where
  "in_range g \<longleftrightarrow>
     (\<forall>lev \<in> set (cells g). \<forall>row \<in> set lev. \<forall>x \<in> set row.
        case x of Fin v \<Rightarrow> \<bar>v\<bar> \<le> max_float | NaN \<Rightarrow> True | _ \<Rightarrow> False)"

subsection \<open>Sample inputs\<close>

definition g_demo :: grid3 where
  "g_demo = \<lparr> nz = 2, ny = 1, nx = 2, cells = [[[Fin 3, NaN]], [[NaN, NaN]]] \<rparr>"

definition g_two :: grid3 where
  "g_two = \<lparr> nz = 2, ny = 1, nx = 1, cells = [[[Fin 1]], [[Fin 3]]] \<rparr>"

definition g_empty :: grid3 where
  "g_empty = \<lparr> nz = 0, ny = 1, nx = 2, cells = [] \<rparr>"

definition g_example :: grid3 where
  "g_example = \<lparr> nz = 3, ny = 1, nx = 2,
                   cells = [[[Fin 10, Fin 10]], [[Fin 10, NaN]], [[Fin 10, NaN]]] \<rparr>"

text \<open>
  An altitude below the resolution of the weights; the binary64 number nearest to
  0.1 and its successor; the weight of altitude 500 and its product with 0.1.
\<close>

definition tiny :: real where
  "tiny = 1000 / 2 ^ 60"

definition tenth :: real where
  "tenth = 7205759403792794 / 2 ^ 56"

definition tenth_up :: real where
  "tenth_up = 7205759403792795 / 2 ^ 56"

definition w500 :: real where
  "w500 = 7014813832872459 / 2 ^ 53"

definition p500 :: real where
  "p500 = 5611851066297968 / 2 ^ 56"

definition g_allnan :: grid3 where
  "g_allnan = \<lparr> nz = 2, ny = 1, nx = 1, cells = [[[NaN]], [[NaN]]] \<rparr>"

definition g_five :: grid3 where
  "g_five = \<lparr> nz = 1, ny = 1, nx = 1, cells = [[[Fin 5]]] \<rparr>"

definition g_tenth :: grid3 where
  "g_tenth = \<lparr> nz = 1, ny = 1, nx = 1, cells = [[[Fin tenth]]] \<rparr>"

definition g_pm :: grid3 where
  "g_pm = \<lparr> nz = 2, ny = 1, nx = 1, cells = [[[PInf]], [[NInf]]] \<rparr>"

section \<open>Exact arithmetic: the weights\<close>

lemma length_weighting_at: "length (weighting_at scale z) = length z"
  by (simp add: weighting_at_def)


lemma qpe_ground_is_at: "qpe_ground z g = qpe_ground_at 1000 z g"
  by (simp add: qpe_ground_def qpe_ground_at_def weighting_def)




section \<open>Exact arithmetic: sums that skip not-a-number\<close>






section \<open>Indexing a well-formed grid\<close>

lemma wf_nth_lengths:
  assumes "wf_grid g" "k < nz g" "i < ny g"
  shows "length (cells g) = nz g" "length (cells g ! k) = ny g" "length (cells g ! k ! i) = nx g"
proof -
  show "length (cells g) = nz g" using assms by (simp add: wf_grid_def)
  have a: "cells g ! k \<in> set (cells g)" using assms by (simp add: wf_grid_def)
  then show l: "length (cells g ! k) = ny g" using assms by (simp add: wf_grid_def)
  have "cells g ! k ! i \<in> set (cells g ! k)" using assms l by simp
  then show "length (cells g ! k ! i) = nx g" using a assms(1) by (auto simp: wf_grid_def)
qed


lemma nth3_map_upt:
  "k < a \<Longrightarrow> i < b \<Longrightarrow> j < c \<Longrightarrow>
   map (\<lambda>k. map (\<lambda>i. map (\<lambda>j. F k i j) [0..<c]) [0..<b]) [0..<a] ! k ! i ! j = F k i j"
  by simp



lemma shape_scale_cells [simp]:
  "nz (scale_cells c g) = nz g" "ny (scale_cells c g) = ny g" "nx (scale_cells c g) = nx g"
  by (simp_all add: scale_cells_def)


lemma wf_g_demo: "wf_grid g_demo"
  by (simp add: wf_grid_def g_demo_def)


section \<open>Exact arithmetic: the surface, cell by cell\<close>

lemma broadcast_dim_same: "broadcast_dim n n = Inr n"
  by (simp add: broadcast_dim_def)




lemma aggregate_fails_iff:
  "aggregate w g = Inl BroadcastError \<longleftrightarrow> length w \<noteq> nz g \<and> length w \<noteq> 1 \<and> nz g \<noteq> 1"
  by (simp add: aggregate_def weighted_levels_def broadcast_dim_def split: sum.splits)

section \<open>Binary64: rounding\<close>

lemma round_even_near:
  assumes "real_of_int n - 1/2 < t" "t < real_of_int n + 1/2"
  shows "round_even t = n"
proof -
  consider "real_of_int n \<le> t" | "t < real_of_int n" by linarith
  then show ?thesis
  proof cases
    case 1
    then have f: "\<lfloor>t\<rfloor> = n" using assms by (intro floor_unique) linarith+
    show ?thesis using assms 1 by (simp add: round_even_def f Let_def)
  next
    case 2
    then have f: "\<lfloor>t\<rfloor> = n - 1" using assms by (intro floor_unique) simp_all
    show ?thesis using assms 2 by (simp add: round_even_def f Let_def)
  qed
qed

lemma round_even_of_int [simp]: "round_even (real_of_int n) = n"
  by (rule round_even_near) simp_all

lemma round_even_0 [simp]: "round_even 0 = 0"
  using round_even_of_int [of 0] by simp

lemma round_even_small:
  assumes "\<bar>t\<bar> < 1/2"
  shows "round_even t = 0"
proof -
  have "real_of_int 0 - 1/2 < t" "t < real_of_int 0 + 1/2"
    using assms by linarith+
  then show ?thesis by (rule round_even_near)
qed

lemma round_even_err: "\<bar>real_of_int (round_even t) - t\<bar> \<le> 1/2"
  unfolding round_even_def Let_def by (auto; linarith)

lemma round_even_cases: "round_even t = \<lfloor>t\<rfloor> \<or> round_even t = \<lfloor>t\<rfloor> + 1"
  by (simp add: round_even_def Let_def)

lemma round_even_mono:
  assumes "s \<le> t"
  shows "round_even s \<le> round_even t"
proof -
  have ab: "\<lfloor>s\<rfloor> \<le> \<lfloor>t\<rfloor>" using assms by (rule floor_mono)
  show ?thesis
  proof (cases "\<lfloor>s\<rfloor> = \<lfloor>t\<rfloor>")
    case True
    have d: "s - real_of_int \<lfloor>t\<rfloor> \<le> t - real_of_int \<lfloor>t\<rfloor>" using assms by simp
    show ?thesis
      unfolding round_even_def Let_def True using d by auto
  next
    case False
    then have "\<lfloor>s\<rfloor> + 1 \<le> \<lfloor>t\<rfloor>" using ab by simp
    moreover have "round_even s \<le> \<lfloor>s\<rfloor> + 1" using round_even_cases [of s] by auto
    moreover have "\<lfloor>t\<rfloor> \<le> round_even t" using round_even_cases [of t] by auto
    ultimately show ?thesis by linarith
  qed
qed

lemma round_even_le: "t \<le> real_of_int n \<Longrightarrow> round_even t \<le> n"
  using round_even_mono [of t "real_of_int n"] by simp

lemma round_even_ge: "real_of_int n \<le> t \<Longrightarrow> n \<le> round_even t"
  using round_even_mono [of "real_of_int n" t] by simp

lemma pow2_powr: "2 powr real_of_int k = (2::real) powi k"
  by (simp add: powr_real_of_int')

lemma pow2_pos: "0 < (2::real) powi k"
  by (simp add: zero_less_power_int)

lemma pow2_not_le_0 [simp]: "\<not> (2::real) powi k \<le> 0"
  using pow2_pos [of k] by (simp only: not_le)

lemma pow2_less_iff: "(2::real) powi a < 2 powi b \<longleftrightarrow> a < b"
proof
  assume l: "(2::real) powi a < 2 powi b"
  show "a < b"
  proof (rule ccontr)
    assume "\<not> a < b"
    then have "(2::real) powi b \<le> 2 powi a"
      by (intro power_int_increasing) simp_all
    with l show False by simp
  qed
next
  assume "a < b"
  then show "(2::real) powi a < 2 powi b"
    by (intro power_int_strict_increasing) simp_all
qed

lemma pow2_le_iff: "(2::real) powi a \<le> 2 powi b \<longleftrightarrow> a \<le> b"
  using pow2_less_iff [of b a] by (simp add: not_less [symmetric])

lemma scaled_pow: "(2::real) powi a / 2 powi (b - 52) = 2 powi (a - b + 52)"
proof -
  have "(2::real) powi (a - (b - 52)) = 2 powi a / 2 powi (b - 52)"
    by (intro power_int_diff) simp
  moreover have "a - (b - 52) = a - b + 52" by simp
  ultimately show ?thesis by metis
qed

lemma expo_eq:
  assumes "2 powi k \<le> \<bar>x\<bar>" "\<bar>x\<bar> < 2 powi (k + 1)" "emin \<le> k"
  shows "expo x = k"
proof -
  have pos: "0 < \<bar>x\<bar>" using assms(1) pow2_pos [of k] by linarith
  have "2 powr real_of_int k \<le> \<bar>x\<bar> \<and> \<bar>x\<bar> < 2 powr (real_of_int k + 1)"
    using assms(1,2) pow2_powr [of k] pow2_powr [of "k + 1"] by simp
  then have "\<lfloor>log 2 \<bar>x\<bar>\<rfloor> = k"
    using pos by (subst floor_log_eq_powr_iff) simp_all
  moreover have "x \<noteq> 0" using pos by simp
  ultimately show ?thesis using assms(3) by (simp add: expo_def)
qed

lemma expo_small:
  assumes "x \<noteq> 0" "\<bar>x\<bar> < 2 powi emin"
  shows "expo x = emin"
proof -
  have "\<bar>x\<bar> < 2 powr real_of_int emin"
    using assms(2) pow2_powr [of emin] by simp
  then have "log 2 \<bar>x\<bar> < real_of_int emin"
    using assms(1) by (subst log_less_iff) simp_all
  then have "\<lfloor>log 2 \<bar>x\<bar>\<rfloor> < emin" by linarith
  then show ?thesis using assms(1) by (simp add: expo_def)
qed

lemma expo_ge: "emin \<le> expo x"
  by (simp add: expo_def)

lemma expo_le_abs:
  assumes "2 powi emin \<le> \<bar>x\<bar>"
  shows "2 powi (expo x) \<le> \<bar>x\<bar>" "\<bar>x\<bar> < 2 powi (expo x + 1)"
proof -
  have pos: "0 < \<bar>x\<bar>" using assms pow2_pos [of emin] by linarith
  define k where "k = \<lfloor>log 2 \<bar>x\<bar>\<rfloor>"
  have "2 powr real_of_int k \<le> \<bar>x\<bar> \<and> \<bar>x\<bar> < 2 powr (real_of_int k + 1)"
    using pos floor_log_eq_powr_iff [of "\<bar>x\<bar>" 2 k] by (simp add: k_def)
  then have b: "2 powi k \<le> \<bar>x\<bar>" "\<bar>x\<bar> < 2 powi (k + 1)"
    using pow2_powr [of k] pow2_powr [of "k + 1"] by simp_all
  have "emin \<le> k"
  proof (rule ccontr)
    assume "\<not> emin \<le> k"
    then have "k + 1 \<le> emin" by simp
    then have "(2::real) powi (k + 1) \<le> 2 powi emin"
      by (intro power_int_increasing) simp_all
    with b(2) assms show False by linarith
  qed
  moreover have "x \<noteq> 0" using pos by simp
  ultimately have "expo x = k" by (simp add: expo_def k_def)
  with b show "2 powi (expo x) \<le> \<bar>x\<bar>" "\<bar>x\<bar> < 2 powi (expo x + 1)" by simp_all
qed

lemma expo_mono:
  assumes "x \<noteq> 0" "\<bar>x\<bar> \<le> \<bar>y\<bar>"
  shows "expo x \<le> expo y"
proof -
  have y: "y \<noteq> 0" using assms by auto
  have "log 2 \<bar>x\<bar> \<le> log 2 \<bar>y\<bar>" using assms by simp
  then have "\<lfloor>log 2 \<bar>x\<bar>\<rfloor> \<le> \<lfloor>log 2 \<bar>y\<bar>\<rfloor>" by (rule floor_mono)
  then show ?thesis using assms(1) y by (simp add: expo_def)
qed

lemma abs_lt_next_binade: "\<bar>x\<bar> < 2 powi (expo x + 1)"
proof (cases "2 powi emin \<le> \<bar>x\<bar>")
  case True
  then show ?thesis by (rule expo_le_abs(2))
next
  case False
  have "(2::real) powi emin \<le> 2 powi (expo x + 1)"
    using expo_ge [of x] by (simp add: pow2_le_iff)
  with False show ?thesis by linarith
qed

lemma binade_le_abs:
  assumes "emin < expo x"
  shows "2 powi (expo x) \<le> \<bar>x\<bar>"
proof -
  have "2 powi emin \<le> \<bar>x\<bar>"
  proof (rule ccontr)
    assume n: "\<not> 2 powi emin \<le> \<bar>x\<bar>"
    show False
    proof (cases "x = 0")
      case True
      then show ?thesis using assms by (simp add: expo_def)
    next
      case False
      then have "expo x = emin" using n by (intro expo_small) simp_all
      with assms show ?thesis by simp
    qed
  qed
  then show ?thesis by (rule expo_le_abs(1))
qed

lemma rnd_dyadic:
  assumes "\<bar>m\<bar> < 2 ^ 53" "emin - 52 \<le> k"
  shows "rnd (real_of_int m * 2 powi k) = real_of_int m * 2 powi k"
proof (cases "m = 0")
  case True
  then show ?thesis by (simp add: rnd_def)
next
  case False
  let ?x = "real_of_int m * 2 powi k"
  have ax: "\<bar>?x\<bar> = real_of_int \<bar>m\<bar> * 2 powi k"
    using pow2_pos [of k] by (simp add: abs_mult)
  have "real_of_int \<bar>m\<bar> < real_of_int (2 ^ 53)"
    using assms(1) by (simp only: of_int_less_iff)
  then have "real_of_int \<bar>m\<bar> < 2 ^ 53" by simp
  then have "\<bar>?x\<bar> < 2 ^ 53 * 2 powi k"
    unfolding ax using pow2_pos [of k] by (intro mult_strict_right_mono)
  also have "\<dots> = 2 powi (53 + k)"
    by (simp add: power_int_add)
  finally have up: "\<bar>?x\<bar> < 2 powi (53 + k)" .
  have le: "expo ?x \<le> 52 + k"
  proof (cases "2 powi emin \<le> \<bar>?x\<bar>")
    case True
    have "2 powi (expo ?x) < (2::real) powi (53 + k)"
      using expo_le_abs(1) [OF True] up by linarith
    then have "expo ?x < 53 + k"
      by (simp add: pow2_less_iff)
    then show ?thesis by simp
  next
    case False
    have "?x \<noteq> 0" using \<open>m \<noteq> 0\<close> pow2_pos [of k] by simp
    then have "expo ?x = emin" using False by (intro expo_small) simp_all
    then show ?thesis using assms(2) by simp
  qed
  define j where "j = nat (k - (expo ?x - 52))"
  have j: "int j = k - (expo ?x - 52)" using le by (simp add: j_def)
  have "?x / 2 powi (expo ?x - 52) = real_of_int m * 2 powi (k - (expo ?x - 52))"
    by (simp add: power_int_diff)
  also have "\<dots> = real_of_int m * 2 ^ j"
    by (simp flip: j add: power_int_of_nat)
  also have "\<dots> = real_of_int (m * 2 ^ j)" by simp
  finally have q: "?x / 2 powi (expo ?x - 52) = real_of_int (m * 2 ^ j)" .
  have "rnd ?x = real_of_int (m * 2 ^ j) * 2 powi (expo ?x - 52)"
    by (simp only: rnd_def q round_even_of_int)
  also have "\<dots> = ?x"
    unfolding q [symmetric] using pow2_pos [of "expo ?x - 52"] by simp
  finally show ?thesis .
qed

lemma rnd_err: "\<bar>rnd x - x\<bar> \<le> 2 powi (expo x - 53)"
proof -
  let ?q = "(2::real) powi (expo x - 52)"
  have q: "0 < ?q" by (rule pow2_pos)
  have "rnd x - x = (real_of_int (round_even (x / ?q)) - x / ?q) * ?q"
    using q by (simp add: rnd_def algebra_simps)
  then have "\<bar>rnd x - x\<bar> = \<bar>real_of_int (round_even (x / ?q)) - x / ?q\<bar> * ?q"
    using q by (simp add: abs_mult)
  also have "\<dots> \<le> (1/2) * ?q"
    using q round_even_err [of "x / ?q"] by (intro mult_right_mono) simp_all
  also have "\<dots> = 2 powi (expo x - 53)"
  proof -
    have "(2::real) powi (expo x - 52) = 2 powi (expo x - 53) * 2"
      using power_int_add [of "2::real" "expo x - 53" 1] by simp
    then show ?thesis by simp
  qed
  finally show ?thesis .
qed

lemma rnd_underflow:
  assumes "\<bar>x\<bar> < 2 powi (emin - 53)"
  shows "rnd x = 0"
proof (cases "x = 0")
  case True
  then show ?thesis by (simp add: rnd_def)
next
  case False
  have "(2::real) powi (emin - 53) \<le> 2 powi emin" by (simp add: pow2_le_iff)
  then have e: "expo x = emin" using assms False by (intro expo_small) simp_all
  let ?q = "(2::real) powi (emin - 52)"
  have q: "0 < ?q" by (rule pow2_pos)
  have h: "(2::real) powi (emin - 53) = ?q / 2"
    using power_int_add [of "2::real" "emin - 53" 1] by simp
  have "\<bar>x\<bar> / ?q < 1/2"
    using assms q unfolding h by (simp add: field_simps)
  then have "\<bar>x / ?q\<bar> < 1/2"
    using q by (simp add: abs_divide)
  then have "round_even (x / ?q) = 0"
    by (rule round_even_small)
  then show ?thesis by (simp add: rnd_def e)
qed

lemma rnd_le_next_binade: "rnd x \<le> 2 powi (expo x + 1)"
proof -
  let ?q = "(2::real) powi (expo x - 52)"
  have q: "0 < ?q" by (rule pow2_pos)
  have "x \<le> 2 powi (expo x + 1)" using abs_lt_next_binade [of x] by linarith
  then have "x / ?q \<le> 2 powi (expo x + 1) / ?q"
    using q by (intro divide_right_mono) simp_all
  also have "\<dots> = real_of_int (2 ^ 53)"
    by (simp add: scaled_pow)
  finally have "round_even (x / ?q) \<le> 2 ^ 53" by (rule round_even_le)
  then have "real_of_int (round_even (x / ?q)) \<le> real_of_int (2 ^ 53)"
    by (simp only: of_int_le_iff)
  then have "rnd x \<le> real_of_int (2 ^ 53) * ?q"
    unfolding rnd_def using q by (intro mult_right_mono) simp_all
  also have "\<dots> = 2 powi (expo x + 1)"
    using scaled_pow [of "expo x + 1" "expo x"] q by (simp add: field_simps)
  finally show ?thesis .
qed

lemma rnd_ge_neg_next_binade: "- (2 powi (expo x + 1)) \<le> rnd x"
proof -
  let ?q = "(2::real) powi (expo x - 52)"
  have q: "0 < ?q" by (rule pow2_pos)
  have "- (2 powi (expo x + 1)) \<le> x" using abs_lt_next_binade [of x] by linarith
  then have "- (2 powi (expo x + 1)) / ?q \<le> x / ?q"
    using q by (intro divide_right_mono) simp_all
  moreover have "- (2 powi (expo x + 1)) / ?q = real_of_int (- (2 ^ 53))"
    using scaled_pow [of "expo x + 1" "expo x"] by simp
  ultimately have "- (2 ^ 53) \<le> round_even (x / ?q)"
    by (intro round_even_ge) simp
  then have "real_of_int (- (2 ^ 53)) \<le> real_of_int (round_even (x / ?q))"
    by (simp only: of_int_le_iff)
  then have "real_of_int (- (2 ^ 53)) * ?q \<le> rnd x"
    unfolding rnd_def using q by (intro mult_right_mono) simp_all
  moreover have "real_of_int (- (2 ^ 53)) * ?q = - (2 powi (expo x + 1))"
    using scaled_pow [of "expo x + 1" "expo x"] q by (simp add: field_simps)
  ultimately show ?thesis by simp
qed

lemma rnd_ge_binade:
  assumes "emin < expo x" "0 < x"
  shows "2 powi (expo x) \<le> rnd x"
proof -
  let ?q = "(2::real) powi (expo x - 52)"
  have q: "0 < ?q" by (rule pow2_pos)
  have "2 powi (expo x) \<le> x" using binade_le_abs [OF assms(1)] assms(2) by simp
  then have "2 powi (expo x) / ?q \<le> x / ?q"
    using q by (intro divide_right_mono) simp_all
  moreover have "2 powi (expo x) / ?q = real_of_int (2 ^ 52)"
    using scaled_pow [of "expo x" "expo x"] by simp
  ultimately have "2 ^ 52 \<le> round_even (x / ?q)"
    by (intro round_even_ge) simp
  then have "real_of_int (2 ^ 52) \<le> real_of_int (round_even (x / ?q))"
    by (simp only: of_int_le_iff)
  then have "real_of_int (2 ^ 52) * ?q \<le> rnd x"
    unfolding rnd_def using q by (intro mult_right_mono) simp_all
  moreover have "real_of_int (2 ^ 52) * ?q = 2 powi (expo x)"
    using scaled_pow [of "expo x" "expo x"] q by (simp add: field_simps)
  ultimately show ?thesis by simp
qed

lemma rnd_le_neg_binade:
  assumes "emin < expo x" "x < 0"
  shows "rnd x \<le> - (2 powi (expo x))"
proof -
  let ?q = "(2::real) powi (expo x - 52)"
  have q: "0 < ?q" by (rule pow2_pos)
  have "x \<le> - (2 powi (expo x))" using binade_le_abs [OF assms(1)] assms(2) by simp
  then have "x / ?q \<le> - (2 powi (expo x)) / ?q"
    using q by (intro divide_right_mono) simp_all
  moreover have "- (2 powi (expo x)) / ?q = real_of_int (- (2 ^ 52))"
    using scaled_pow [of "expo x" "expo x"] by simp
  ultimately have "round_even (x / ?q) \<le> - (2 ^ 52)"
    by (intro round_even_le) simp
  then have "real_of_int (round_even (x / ?q)) \<le> real_of_int (- (2 ^ 52))"
    by (simp only: of_int_le_iff)
  then have "rnd x \<le> real_of_int (- (2 ^ 52)) * ?q"
    unfolding rnd_def using q by (intro mult_right_mono) simp_all
  moreover have "real_of_int (- (2 ^ 52)) * ?q = - (2 powi (expo x))"
    using scaled_pow [of "expo x" "expo x"] q by (simp add: field_simps)
  ultimately show ?thesis by simp
qed

lemma rnd_nonneg: "0 \<le> x \<Longrightarrow> 0 \<le> rnd x"
proof -
  assume "0 \<le> x"
  then have "real_of_int 0 \<le> x / 2 powi (expo x - 52)" by simp
  then have "0 \<le> round_even (x / 2 powi (expo x - 52))" by (rule round_even_ge)
  then show ?thesis by (simp add: rnd_def)
qed

lemma rnd_nonpos: "x \<le> 0 \<Longrightarrow> rnd x \<le> 0"
proof -
  assume "x \<le> 0"
  then have "x / 2 powi (expo x - 52) \<le> real_of_int 0" by (simp add: divide_nonpos_pos)
  then have "round_even (x / 2 powi (expo x - 52)) \<le> 0" by (rule round_even_le)
  then show ?thesis by (simp add: rnd_def mult_le_0_iff)
qed

lemma rnd_mono:
  assumes "x \<le> y"
  shows "rnd x \<le> rnd y"
proof -
  consider "x \<le> 0 \<and> 0 \<le> y" | "0 < x" | "y < 0" using assms by linarith
  then show ?thesis
  proof cases
    case 1
    then show ?thesis using rnd_nonpos [of x] rnd_nonneg [of y] by linarith
  next
    case 2
    then have e: "expo x \<le> expo y" using assms by (intro expo_mono) simp_all
    show ?thesis
    proof (cases "expo x = expo y")
      case True
      have "x / 2 powi (expo y - 52) \<le> y / 2 powi (expo y - 52)"
        using assms pow2_pos [of "expo y - 52"] by (intro divide_right_mono) simp_all
      then have "round_even (x / 2 powi (expo y - 52)) \<le> round_even (y / 2 powi (expo y - 52))"
        by (rule round_even_mono)
      then have "real_of_int (round_even (x / 2 powi (expo y - 52)))
                 \<le> real_of_int (round_even (y / 2 powi (expo y - 52)))"
        by (simp only: of_int_le_iff)
      then show ?thesis
        unfolding rnd_def True by (intro mult_right_mono) simp_all
    next
      case False
      then have lt: "expo x + 1 \<le> expo y" using e by simp
      then have "emin < expo y" using expo_ge [of x] by linarith
      then have "2 powi (expo y) \<le> rnd y" using 2 assms by (intro rnd_ge_binade) simp_all
      moreover have "(2::real) powi (expo x + 1) \<le> 2 powi (expo y)"
        using lt by (simp add: pow2_le_iff)
      ultimately show ?thesis using rnd_le_next_binade [of x] by linarith
    qed
  next
    case 3
    then have e: "expo y \<le> expo x" using assms by (intro expo_mono) simp_all
    show ?thesis
    proof (cases "expo x = expo y")
      case True
      have "x / 2 powi (expo y - 52) \<le> y / 2 powi (expo y - 52)"
        using assms pow2_pos [of "expo y - 52"] by (intro divide_right_mono) simp_all
      then have "round_even (x / 2 powi (expo y - 52)) \<le> round_even (y / 2 powi (expo y - 52))"
        by (rule round_even_mono)
      then have "real_of_int (round_even (x / 2 powi (expo y - 52)))
                 \<le> real_of_int (round_even (y / 2 powi (expo y - 52)))"
        by (simp only: of_int_le_iff)
      then show ?thesis
        unfolding rnd_def True by (intro mult_right_mono) simp_all
    next
      case False
      then have lt: "expo y + 1 \<le> expo x" using e by simp
      then have "emin < expo x" using expo_ge [of y] by linarith
      then have "rnd x \<le> - (2 powi (expo x))" using 3 assms by (intro rnd_le_neg_binade) simp_all
      moreover have "(2::real) powi (expo y + 1) \<le> 2 powi (expo x)"
        using lt by (simp add: pow2_le_iff)
      ultimately show ?thesis using rnd_ge_neg_next_binade [of y] by linarith
    qed
  qed
qed

lemma fl_not_nan [simp]: "fl x \<noteq> NaN"
  by (simp add: fl_def)

lemma fl_0 [simp]: "fl 0 = Fin 0"
  by (simp add: fl_def)

lemma fl_alt:
  "fl x = (if 2 powi emax \<le> rnd x then PInf else if rnd x \<le> - (2 powi emax) then NInf else Fin (rnd x))"
proof (cases "x = 0")
  case True
  then show ?thesis by (simp add: fl_def rnd_def)
next
  case False
  then show ?thesis by (simp add: fl_def)
qed

lemma fl_underflow: "\<bar>x\<bar> < 2 powi (emin - 53) \<Longrightarrow> fl x = Fin 0"
  using rnd_underflow [of x] pow2_pos [of emax] by (simp add: fl_def)

lemma fl_dyadic:
  assumes "\<bar>m\<bar> < 2 ^ 53" "emin - 52 \<le> k" "\<bar>real_of_int m * 2 powi k\<bar> < 2 powi emax"
  shows "fl (real_of_int m * 2 powi k) = Fin (real_of_int m * 2 powi k)"
  using assms(3) by (simp add: fl_def rnd_dyadic [OF assms(1,2)] abs_less_iff)

lemma fl_int:
  assumes "\<bar>m\<bar> < 2 ^ 53"
  shows "fl (real_of_int m) = Fin (real_of_int m)"
proof -
  have "real_of_int \<bar>m\<bar> < real_of_int (2 ^ 53)"
    using assms by (simp only: of_int_less_iff)
  then have "\<bar>real_of_int m\<bar> < 2 powi 53" by simp
  also have "\<dots> \<le> 2 powi emax" by (simp only: pow2_le_iff emax_def)
  finally have b: "\<bar>real_of_int m * 2 powi 0\<bar> < 2 powi emax" by simp
  have "emin - 52 \<le> 0" by (simp add: emin_def)
  from fl_dyadic [OF assms this b] show ?thesis by simp
qed

lemma fl_eval:
  assumes "2 powi k \<le> \<bar>x\<bar>" "\<bar>x\<bar> < 2 powi (k + 1)" "emin \<le> k"
    and "real_of_int n - 1/2 < x / 2 powi (k - 52)" "x / 2 powi (k - 52) < real_of_int n + 1/2"
    and "\<bar>real_of_int n * 2 powi (k - 52)\<bar> < 2 powi emax"
  shows "fl x = Fin (real_of_int n * 2 powi (k - 52))"
proof -
  have e: "expo x = k" using assms(1-3) by (rule expo_eq)
  have x0: "x \<noteq> 0" using assms(1) pow2_pos [of k] by auto
  have r: "rnd x = real_of_int n * 2 powi (k - 52)"
    by (simp add: rnd_def e round_even_near [OF assms(4,5)])
  show ?thesis using assms(6) x0 by (simp add: fl_def r abs_less_iff)
qed

lemma fl_finite_err:
  assumes "2 powi emin \<le> \<bar>x\<bar>" "\<bar>x\<bar> \<le> 2 powi (emax - 1)"
  shows "\<exists>r. fl x = Fin r \<and> \<bar>r - x\<bar> \<le> 2 powi (- 53) * \<bar>x\<bar>"
proof -
  have x0: "x \<noteq> 0" using assms(1) pow2_pos [of emin] by auto
  have "(2::real) powi (expo x - 53) = 2 powi (- 53) * 2 powi (expo x)"
    using power_int_add [of "2::real" "- 53" "expo x"] by simp
  also have "\<dots> \<le> 2 powi (- 53) * \<bar>x\<bar>"
    using expo_le_abs(1) [OF assms(1)] pow2_pos [of "- 53"] by (intro mult_left_mono) simp_all
  finally have err: "\<bar>rnd x - x\<bar> \<le> 2 powi (- 53) * \<bar>x\<bar>"
    using rnd_err [of x] by linarith
  have small: "(2::real) powi (- 53) \<le> 1/2"
    using pow2_le_iff [of "- 53" "- 1"] by simp
  have "\<bar>rnd x\<bar> \<le> \<bar>x\<bar> + 2 powi (- 53) * \<bar>x\<bar>" using err by linarith
  also have "\<dots> \<le> \<bar>x\<bar> + (1/2) * \<bar>x\<bar>"
    using small by (intro add_left_mono mult_right_mono) simp_all
  also have "\<dots> < 2 * \<bar>x\<bar>" using x0 by simp
  also have "\<dots> \<le> 2 * 2 powi (emax - 1)" using assms(2) by simp
  also have "\<dots> = 2 powi emax"
    using power_int_add [of "2::real" "emax - 1" 1] by simp
  finally have "\<bar>rnd x\<bar> < 2 powi emax" .
  then have "fl x = Fin (rnd x)" using x0 by (simp add: fl_def abs_less_iff)
  with err show ?thesis by blast
qed

lemma fl_mono: "x \<le> y \<Longrightarrow> np_le (fl x) (fl y)"
  using rnd_mono [of x y] pow2_pos [of emax] unfolding fl_alt by (auto; linarith)

lemma fl_near_one:
  assumes "1 - 2 powi (- 54) < x" "x \<le> 1"
  shows "fl x = Fin 1"
proof (cases "x = 1")
  case True
  then show ?thesis using fl_int [of 1] by simp
next
  case False
  then have x1: "x < 1" using assms(2) by simp
  have s: "(2::real) powi (- 54) \<le> 1/2"
    using pow2_le_iff [of "- 54" "- 1"] by simp
  have x2: "1/2 \<le> x" using assms(1) s by linarith
  have a: "2 powi (- 1) \<le> \<bar>x\<bar>" "\<bar>x\<bar> < 2 powi (- 1 + 1)" "emin \<le> - 1"
    using x1 x2 by (simp_all add: emin_def)
  have q: "x / 2 powi (- 1 - 52) = x * 2 ^ 53"
    by (simp add: power_int_minus field_simps)
  have h: "(2::real) powi (- 54) * 2 ^ 53 = 1/2"
    by (simp add: power_int_minus)
  have "(1 - 2 powi (- 54)) * 2 ^ 53 < x * 2 ^ 53"
    using assms(1) by (intro mult_strict_right_mono) simp_all
  then have lo: "real_of_int (2 ^ 53) - 1/2 < x / 2 powi (- 1 - 52)"
    unfolding q using h by (simp add: algebra_simps)
  have "x * 2 ^ 53 < 1 * 2 ^ 53"
    using x1 by (intro mult_strict_right_mono) simp_all
  then have hi: "x / 2 powi (- 1 - 52) < real_of_int (2 ^ 53) + 1/2"
    unfolding q by simp
  have b: "\<bar>real_of_int (2 ^ 53) * 2 powi (- 1 - 52)\<bar> < 2 powi emax"
    by (simp add: emax_def power_int_minus)
  from fl_eval [OF a lo hi b] show ?thesis by (simp add: power_int_minus)
qed

lemma fl_max_float: "fl max_float = Fin max_float" "fl (- max_float) = Fin (- max_float)"
proof -
  have m: "\<bar>2 ^ 53 - 1 :: int\<bar> < 2 ^ 53" "\<bar>- (2 ^ 53 - 1) :: int\<bar> < 2 ^ 53" by simp_all
  have k: "emin - 52 \<le> 971" by (simp add: emin_def)
  have "(2 ^ 53 - 1 :: real) * 2 powi 971 < 2 ^ 53 * 2 powi 971"
    by (intro mult_strict_right_mono) simp_all
  also have "\<dots> = 2 powi emax"
    using power_int_add [of "2::real" 53 971] by (simp add: emax_def)
  finally have b: "(2 ^ 53 - 1 :: real) * 2 powi 971 < 2 powi emax" .
  have b1: "\<bar>real_of_int (2 ^ 53 - 1) * 2 powi 971\<bar> < 2 powi emax"
    using b by (simp add: abs_mult)
  have b2: "\<bar>real_of_int (- (2 ^ 53 - 1)) * 2 powi 971\<bar> < 2 powi emax"
    using b by (simp add: abs_mult)
  show "fl max_float = Fin max_float"
    using fl_dyadic [OF m(1) k b1] by (simp add: max_float_def)
  show "fl (- max_float) = Fin (- max_float)"
    using fl_dyadic [OF m(2) k b2] by (simp add: max_float_def)
qed

lemma fl_in_range:
  assumes "\<bar>x\<bar> \<le> max_float"
  shows "\<exists>r. fl x = Fin r"
proof -
  have "np_le (fl x) (fl max_float)" "np_le (fl (- max_float)) (fl x)"
    using assms by (intro fl_mono; linarith)+
  then show ?thesis
    unfolding fl_max_float by (cases "fl x") simp_all
qed

section \<open>Binary64: the exponential and the weights\<close>

lemma exp_2_ge_5: "5 \<le> exp (2::real)"
  using exp_lower_Taylor_quadratic [of "2::real"] by (simp add: power2_eq_square)

lemma exp_1000_large: "(2::real) ^ 1075 < exp 1000"
proof -
  have "(2::real) ^ 43 < 5 ^ 20" by simp
  then have "((2::real) ^ 43) ^ 25 < (5 ^ 20) ^ 25"
    by (intro power_strict_mono) simp_all
  then have "(2::real) ^ 1075 < 5 ^ 500"
    by (simp only: power_mult [symmetric]) simp
  also have "(5::real) ^ 500 \<le> exp 2 ^ 500"
    using exp_2_ge_5 by (intro power_mono) simp_all
  also have "\<dots> = exp (of_nat 500 * 2)"
    by (simp only: exp_of_nat_mult)
  finally show ?thesis by simp
qed

lemma exp_underflow:
  assumes "t \<le> - 1000"
  shows "fl (exp t) = Fin 0"
proof -
  have "exp t \<le> exp (- 1000)" using assms by simp
  also have "\<dots> = inverse (exp 1000)" by (simp add: exp_minus)
  also have "\<dots> < inverse (2 ^ 1075)"
    using exp_1000_large by (intro less_imp_inverse_less) simp_all
  also have "\<dots> = 2 powi (emin - 53)"
    by (simp add: emin_def power_int_minus)
  finally have "\<bar>exp t\<bar> < 2 powi (emin - 53)" by simp
  then show ?thesis by (rule fl_underflow)
qed

lemma exp_overflow:
  assumes "1000 \<le> t"
  shows "fl (exp t) = PInf"
proof -
  have k: "emin - 52 \<le> 1075" by (simp add: emin_def)
  have "rnd (real_of_int 1 * 2 powi 1075) = real_of_int 1 * 2 powi 1075"
    by (rule rnd_dyadic [OF _ k]) simp
  then have r: "rnd (2 powi 1075) = 2 powi 1075" by simp
  have "(2::real) powi emax \<le> 2 powi 1075" by (simp only: pow2_le_iff emax_def)
  then have big: "fl (2 powi 1075) = PInf" by (simp add: fl_alt r del: power_int_numeral)
  have "(2::real) powi 1075 \<le> exp 1000" using exp_1000_large by simp
  also have "\<dots> \<le> exp t" using assms by simp
  finally have "np_le (fl (2 powi 1075)) (fl (exp t))" by (rule fl_mono)
  then show ?thesis unfolding big by (cases "fl (exp t)") simp_all
qed

lemma exp_neg_quarter_bounds:
  "(15497701382858599 / 19899442475827200 :: real) < exp (- (1/4))"
  "exp (- (1/4)) \<le> (15497701382858599 / 19899442475827200 :: real) + 1 / 11700872175786393600"
proof -
  obtain t :: real where t: "\<bar>t\<bar> \<le> \<bar>- (1/4)\<bar>"
    and e: "exp (- (1/4)) = (\<Sum>m<14. ((- (1/4)) ^ m) / fact m) + (exp t / fact 14) * (- (1/4)) ^ 14"
    using Maclaurin_exp_le [of "- (1/4)" 14] by blast
  have s: "(\<Sum>m<14. ((- (1/4 :: real)) ^ m) / fact m) = 15497701382858599 / 19899442475827200"
    by (simp add: lessThan_Suc eval_nat_numeral)
  have "t \<le> 1/2" using t by simp
  then have "exp t \<le> exp (1/2)" by simp
  also have "\<dots> \<le> 1 + 1/2 + (1/2)\<^sup>2"
    by (rule exp_bound) simp_all
  finally have up: "exp t \<le> 2" by (simp add: power2_eq_square)
  have r: "(exp t / fact 14) * (- (1/4)) ^ 14 = exp t / 23401744351572787200"
    by (simp add: eval_nat_numeral)
  have val: "exp (- (1/4)) = 15497701382858599 / 19899442475827200 + exp t / 23401744351572787200"
    unfolding e s r ..
  have rem: "0 < exp t / 23401744351572787200" "exp t / 23401744351572787200 \<le> 2 / 23401744351572787200"
    using up by simp_all
  show "(15497701382858599 / 19899442475827200 :: real) < exp (- (1/4))"
    using val rem by linarith
  show "exp (- (1/4)) \<le> (15497701382858599 / 19899442475827200 :: real) + 1 / 11700872175786393600"
    using val rem by linarith
qed

lemma np_le_refl_fl [simp]: "np_le (fl x) (fl x)"
  by (rule fl_mono) simp

lemma np_le_not_nan: "np_le x y \<Longrightarrow> x \<noteq> NaN \<and> y \<noteq> NaN"
  by (cases x; cases y) simp_all

lemma np_le_NInf: "y \<noteq> NaN \<Longrightarrow> np_le NInf y"
  by (cases y) simp_all

lemma np_le_PInf: "x \<noteq> NaN \<Longrightarrow> np_le x PInf"
  by (cases x) simp_all

lemma np_div64_mono:
  assumes "np_le x y"
  shows "np_le (np_div64 x (Fin 1000)) (np_div64 y (Fin 1000))"
  using assms
  by (cases x; cases y) (simp_all add: fl_mono divide_right_mono np_le_NInf np_le_PInf)

lemma fl_exp_nonneg: "np_le (Fin 0) (fl (exp t))"
  using fl_mono [of 0 "exp t"] by simp

lemma np_exp64_mono:
  assumes "np_le x y"
  shows "np_le (np_exp64 x) (np_exp64 y)"
  using assms
  by (cases x; cases y) (simp_all add: fl_mono fl_exp_nonneg np_le_PInf)

lemma scaled_altitude_mono:
  assumes "a \<le> b"
  shows "np_le (np_mul64 (Fin (- 0.5)) (Fin b)) (np_mul64 (Fin (- 0.5)) (Fin a))"
  using assms by (simp add: fl_mono)

lemma weight64_mono: "a \<le> b \<Longrightarrow> np_le (weight64 b) (weight64 a)"
  unfolding weight64_def
  by (intro np_exp64_mono np_div64_mono scaled_altitude_mono)

lemma weight64_nonneg: "np_le (Fin 0) (weight64 a)"
proof -
  let ?u = "np_div64 (np_mul64 (Fin (- 0.5)) (Fin a)) (Fin 1000)"
  have "np_le ?u ?u"
    by (intro np_div64_mono scaled_altitude_mono) simp
  then have "np_le NInf ?u"
    using np_le_not_nan np_le_NInf by blast
  then have "np_le (np_exp64 NInf) (np_exp64 ?u)" by (rule np_exp64_mono)
  then show ?thesis by (simp add: weight64_def)
qed

lemma length_weighting64: "length (weighting64 z) = length z"
  by (simp add: weighting64_def)

lemma weighting64_nth: "k < length z \<Longrightarrow> weighting64 z ! k = weight64 (z ! k)"
  by (simp add: weighting64_def)

lemma altitude_exact:
  "np_div64 (np_mul64 (Fin (- 0.5)) (Fin 2000000)) (Fin 1000) = Fin (- 1000)"
  "np_div64 (np_mul64 (Fin (- 0.5)) (Fin 3000000)) (Fin 1000) = Fin (- 1500)"
  "np_div64 (np_mul64 (Fin (- 0.5)) (Fin 500)) (Fin 1000) = Fin (- (1/4))"
  "np_div64 (np_mul64 (Fin (- 0.5)) (Fin 0)) (Fin 1000) = Fin 0"
  "np_div64 (np_mul64 (Fin (- 0.5)) (Fin tiny)) (Fin 1000) = Fin (- (1 / 2 ^ 61))"
proof -
  have d: "emin - 52 \<le> - 2" "emin - 52 \<le> - 58" "emin - 52 \<le> - 61"
    by (simp_all add: emin_def)
  have q: "fl (- (1/4)) = Fin (- (1/4))"
    using fl_dyadic [of "- 1" "- 2", OF _ d(1)] by (simp add: emax_def power_int_minus)
  have a: "fl (- (125 / 2 ^ 58)) = Fin (- (125 / 2 ^ 58))"
    using fl_dyadic [of "- 125" "- 58", OF _ d(2)] by (simp add: emax_def power_int_minus)
  have b: "fl (- (1 / 2 ^ 61)) = Fin (- (1 / 2 ^ 61))"
    using fl_dyadic [of "- 1" "- 61", OF _ d(3)] by (simp add: emax_def power_int_minus)
  show "np_div64 (np_mul64 (Fin (- 0.5)) (Fin 2000000)) (Fin 1000) = Fin (- 1000)"
    using fl_int [of "- 1000000"] fl_int [of "- 1000"] by simp
  show "np_div64 (np_mul64 (Fin (- 0.5)) (Fin 3000000)) (Fin 1000) = Fin (- 1500)"
    using fl_int [of "- 1500000"] fl_int [of "- 1500"] by simp
  show "np_div64 (np_mul64 (Fin (- 0.5)) (Fin 500)) (Fin 1000) = Fin (- (1/4))"
    using fl_int [of "- 250"] q by simp
  show "np_div64 (np_mul64 (Fin (- 0.5)) (Fin 0)) (Fin 1000) = Fin 0"
    by simp
  show "np_div64 (np_mul64 (Fin (- 0.5)) (Fin tiny)) (Fin 1000) = Fin (- (1 / 2 ^ 61))"
    using a b by (simp add: tiny_def)
qed

lemma weight64_values:
  "weight64 0 = Fin 1" "weight64 tiny = Fin 1"
  "weight64 2000000 = Fin 0" "weight64 3000000 = Fin 0"
proof -
  have "1 + (- (1 / 2 ^ 61)) \<le> exp (- (1 / 2 ^ 61) :: real)"
    by (rule exp_ge_add_one_self)
  moreover have "(2::real) powi (- 54) = 1 / 2 ^ 54"
    by (simp add: power_int_minus)
  ultimately have lo: "1 - 2 powi (- 54) < exp (- (1 / 2 ^ 61) :: real)"
    by simp
  have hi: "exp (- (1 / 2 ^ 61) :: real) \<le> 1" by simp
  show "weight64 0 = Fin 1"
    using fl_int [of 1] by (simp only: weight64_def altitude_exact np_exp64.simps) simp
  show "weight64 tiny = Fin 1"
    by (simp only: weight64_def altitude_exact np_exp64.simps fl_near_one [OF lo hi])
  show "weight64 2000000 = Fin 0"
    by (simp only: weight64_def altitude_exact np_exp64.simps) (simp add: exp_underflow)
  show "weight64 3000000 = Fin 0"
    by (simp only: weight64_def altitude_exact np_exp64.simps) (simp add: exp_underflow)
qed

lemma weight64_500: "weight64 500 = Fin w500"
proof -
  let ?x = "exp (- (1/4)) :: real"
  have lo: "(15497701382858599 / 19899442475827200 :: real) < ?x"
    and hi: "?x \<le> (15497701382858599 / 19899442475827200 :: real) + 1 / 11700872175786393600"
    by (rule exp_neg_quarter_bounds)+
  have a: "2 powi (- 1) \<le> \<bar>?x\<bar>" "\<bar>?x\<bar> < 2 powi (- 1 + 1)" "emin \<le> - 1"
    using lo hi by (simp_all add: emin_def)
  have q: "?x / 2 powi (- 1 - 52) = ?x * 2 ^ 53"
    by (simp add: power_int_minus field_simps)
  have "(15497701382858599 / 19899442475827200 :: real) * 2 ^ 53 < ?x * 2 ^ 53"
    using lo by (intro mult_strict_right_mono) simp_all
  then have l: "real_of_int 7014813832872459 - 1/2 < ?x / 2 powi (- 1 - 52)"
    unfolding q by simp
  have "?x * 2 ^ 53 \<le> ((15497701382858599 / 19899442475827200 :: real) + 1 / 11700872175786393600) * 2 ^ 53"
    using hi by (intro mult_right_mono) simp_all
  then have h: "?x / 2 powi (- 1 - 52) < real_of_int 7014813832872459 + 1/2"
    unfolding q by simp
  have b: "\<bar>real_of_int 7014813832872459 * 2 powi (- 1 - 52)\<bar> < 2 powi emax"
    by (simp add: emax_def power_int_minus)
  have "fl ?x = Fin w500"
    using fl_eval [OF a l h b] by (simp add: power_int_minus w500_def)
  then show ?thesis
    by (simp only: weight64_def altitude_exact np_exp64.simps)
qed

lemma weight64_negative: "weight64 (- 2000000) = PInf"
proof -
  have "np_div64 (np_mul64 (Fin (- 0.5)) (Fin (- 2000000))) (Fin 1000) = Fin 1000"
    using fl_int [of 1000000] fl_int [of 1000] by simp
  then show ?thesis
    by (simp only: weight64_def np_exp64.simps) (simp add: exp_overflow)
qed

lemma weight64_unit:
  assumes "0 \<le> a"
  shows "\<exists>w. weight64 a = Fin w \<and> 0 \<le> w \<and> w \<le> 1"
proof -
  have "np_le (weight64 a) (weight64 0)" using assms by (rule weight64_mono)
  then have "np_le (weight64 a) (Fin 1)" by (simp add: weight64_values)
  moreover have "np_le (Fin 0) (weight64 a)" by (rule weight64_nonneg)
  ultimately show ?thesis by (cases "weight64 a") simp_all
qed


lemma weighting64_partial: "weighting64 [0, 2000000] = [Fin 1, Fin 0]"
  by (simp only: weighting64_def list.map weight64_values)

section \<open>Binary64: sums and the surface\<close>

lemma np_add64_nonneg:
  assumes "np_le (Fin 0) x" "np_le (Fin 0) y"
  shows "np_le (Fin 0) (np_add64 x y)"
proof -
  have "np_le (fl 0) (fl (a + b))" if "0 \<le> a" "0 \<le> b" for a b :: real
    using that by (intro fl_mono) simp
  then show ?thesis
    using assms by (cases x; cases y) simp_all
qed

lemma foldl_np_add64_nonneg:
  "np_le (Fin 0) acc \<Longrightarrow> \<forall>x \<in> set xs. np_le (Fin 0) x \<Longrightarrow> np_le (Fin 0) (foldl np_add64 acc xs)"
  by (induction xs arbitrary: acc) (simp_all add: np_add64_nonneg)

lemma add_reduce_nonneg: "\<forall>x \<in> set xs. np_le (Fin 0) x \<Longrightarrow> np_le (Fin 0) (add_reduce xs)"
  by (cases xs) (simp_all add: add_reduce_def foldl_np_add64_nonneg)

lemma np_sum64_weighting64_nonneg: "np_le (Fin 0) (np_sum64 (weighting64 z))"
  unfolding np_sum64_def
  by (rule add_reduce_nonneg) (auto simp: weighting64_def weight64_nonneg)

lemma foldl_np_add64_zeros:
  "\<forall>x \<in> set xs. x = Fin 0 \<Longrightarrow> foldl np_add64 (Fin 0) xs = Fin 0"
  by (induction xs) simp_all

lemma add_reduce_zeros: "\<forall>x \<in> set xs. x = Fin 0 \<Longrightarrow> add_reduce xs = Fin 0"
  by (cases xs) (simp_all add: add_reduce_def foldl_np_add64_zeros)

lemma np_mul64_NaN [simp]: "np_mul64 w NaN = NaN"
  by (cases w) simp_all

lemma zero_over_nonneg:
  assumes "np_le (Fin 0) d" "d \<noteq> Fin 0"
  shows "np_div64 (Fin 0) d = Fin 0"
  using assms by (cases d) simp_all

lemma foldl_np_add64_not_nan:
  "acc \<noteq> NaN \<Longrightarrow> \<forall>x \<in> set xs. \<exists>r. x = Fin r \<Longrightarrow> foldl np_add64 acc xs \<noteq> NaN"
proof (induction xs arbitrary: acc)
  case Nil
  then show ?case by simp
next
  case (Cons x xs)
  then obtain r where x: "x = Fin r" by auto
  have "np_add64 acc x \<noteq> NaN"
    using Cons.prems(1) unfolding x by (cases acc) simp_all
  then show ?case using Cons by simp
qed

lemma add_reduce_not_nan:
  assumes "\<forall>x \<in> set xs. \<exists>r. x = Fin r"
  shows "add_reduce xs \<noteq> NaN"
proof (cases xs)
  case Nil
  then show ?thesis by (simp add: add_reduce_def)
next
  case (Cons x rest)
  then have "x \<noteq> NaN" "\<forall>y \<in> set rest. \<exists>r. y = Fin r"
    using assms by auto
  then have "foldl np_add64 x rest \<noteq> NaN" by (rule foldl_np_add64_not_nan)
  then show ?thesis by (simp add: add_reduce_def Cons)
qed

lemma np_div64_not_nan: "x \<noteq> NaN \<Longrightarrow> d \<noteq> 0 \<Longrightarrow> np_div64 x (Fin d) \<noteq> NaN"
  by (cases x) simp_all

lemma weighted_cell_finite:
  assumes "0 \<le> w" "w \<le> 1" "case x of Fin v \<Rightarrow> \<bar>v\<bar> \<le> max_float | NaN \<Rightarrow> True | _ \<Rightarrow> False"
  shows "np_mul64 (Fin w) x = NaN \<or> (\<exists>r. np_mul64 (Fin w) x = Fin r)"
proof (cases x)
  case (Fin v)
  then have "\<bar>v\<bar> \<le> max_float" using assms(3) by simp
  moreover have "\<bar>w * v\<bar> \<le> 1 * \<bar>v\<bar>"
    unfolding abs_mult using assms(1,2) by (intro mult_right_mono) simp_all
  ultimately have "\<bar>w * v\<bar> \<le> max_float" by simp
  then show ?thesis using Fin fl_in_range by simp
qed (use assms(3) in simp_all)

lemma cell_in_range:
  assumes "wf_grid g" "in_range g" "k < nz g" "i < ny g" "j < nx g"
  shows "case cells g ! k ! i ! j of Fin v \<Rightarrow> \<bar>v\<bar> \<le> max_float | NaN \<Rightarrow> True | _ \<Rightarrow> False"
proof -
  note l = wf_nth_lengths [OF assms(1,3,4)]
  have a: "cells g ! k \<in> set (cells g)" using assms(3) l(1) by simp
  have b: "cells g ! k ! i \<in> set (cells g ! k)" using assms(4) l(2) by simp
  have c: "cells g ! k ! i ! j \<in> set (cells g ! k ! i)" using assms(5) l(3) by simp
  show ?thesis using a b c assms(2) unfolding in_range_def by blast
qed

lemma in_range_g_demo: "in_range g_demo"
proof -
  have "(1::real) \<le> 2 powi 971" using pow2_le_iff [of 0 971] by simp
  then have "(2 ^ 53 - 1 :: real) * 1 \<le> (2 ^ 53 - 1) * 2 powi 971"
    by (intro mult_left_mono) simp_all
  then have "3 \<le> max_float" by (simp add: max_float_def)
  then show ?thesis by (simp add: in_range_def g_demo_def)
qed

lemma aggregate64_cells:
  assumes "broadcast_dim (length w) (nz g) = Inr bz"
  shows "aggregate64 w g =
     Inr (map (\<lambda>i. map (\<lambda>j.
            np_div64 (nansum64 (map (\<lambda>k. np_mul64 (w ! (if length w = 1 then 0 else k))
                                             (cells g ! (if nz g = 1 then 0 else k) ! i ! j))
                                [0..<bz]))
                     (np_sum64 w)) [0..<nx g]) [0..<ny g])"
proof -
  let ?F = "\<lambda>k i j. np_mul64 (w ! (if length w = 1 then 0 else k))
                                           (cells g ! (if nz g = 1 then 0 else k) ! i ! j)"
  let ?p = "\<lparr> nz = bz, ny = ny g, nx = nx g,
                cells = map (\<lambda>k. map (\<lambda>i. map (\<lambda>j. ?F k i j) [0..<nx g]) [0..<ny g]) [0..<bz] \<rparr>"
  have wl: "weighted_levels64 w g = Inr ?p"
    using assms by (simp add: weighted_levels64_def)
  have "nansum64_axis0 ?p = map (\<lambda>i. map (\<lambda>j. nansum64 (map (\<lambda>k. ?F k i j) [0..<bz])) [0..<nx g]) [0..<ny g]"
    unfolding nansum64_axis0_def
    apply (simp only: grid3.simps)
    apply (intro map_cong refl arg_cong [where f = nansum64])
    apply (rule nth3_map_upt)
    apply simp_all
    done
  then show ?thesis
    by (simp add: aggregate64_def wl comp_def)
qed

lemma qpe_ground64_cells:
  assumes "length z = nz g"
  shows "qpe_ground64 z g =
     Inr (map (\<lambda>i. map (\<lambda>j.
            np_div64 (nansum64 (map (\<lambda>k. np_mul64 (weighting64 z ! k) (cells g ! k ! i ! j))
                                [0..<nz g]))
                     (np_sum64 (weighting64 z))) [0..<nx g]) [0..<ny g])"
proof -
  let ?w = "weighting64 z"
  have len: "length ?w = nz g" using assms by (simp add: length_weighting64)
  have bd: "broadcast_dim (length ?w) (nz g) = Inr (nz g)"
    by (simp add: len broadcast_dim_same)
  have eq: "map (\<lambda>k. np_mul64 (?w ! (if length ?w = 1 then 0 else k))
                             (cells g ! (if nz g = 1 then 0 else k) ! i ! j)) [0..<nz g]
          = map (\<lambda>k. np_mul64 (?w ! k) (cells g ! k ! i ! j)) [0..<nz g]" for i j
    using len by (auto intro!: map_cong)
  show ?thesis
    unfolding qpe_ground64_def aggregate64_cells [OF bd] eq ..
qed

lemma np_sum64_partial: "np_sum64 (weighting64 [0, 2000000]) = Fin 1"
  using fl_int [of 1] by (simp add: weighting64_partial np_sum64_def add_reduce_def)

lemma round_trip_error:
  assumes "0 < w"
    and "2 powi emin \<le> \<bar>w * x\<bar>" and "\<bar>w * x\<bar> \<le> 2 powi (emax - 1)"
    and "2 powi (emin + 1) \<le> \<bar>x\<bar>" and "\<bar>x\<bar> \<le> 2 powi (emax - 2)"
  shows "\<exists>p r. np_mul64 (Fin w) (Fin x) = Fin p \<and> np_div64 (Fin p) (Fin w) = Fin r
               \<and> \<bar>r - x\<bar> \<le> 2 powi (- 51) * \<bar>x\<bar>"
proof -
  define u :: real where "u = 2 powi (- 53)"
  have u: "0 < u" "u \<le> 1/2" "4 * u = 2 powi (- 51)"
    by (simp_all add: u_def power_int_minus)
  obtain p where p: "fl (w * x) = Fin p" "\<bar>p - w * x\<bar> \<le> u * \<bar>w * x\<bar>"
    using fl_finite_err [OF assms(2,3)] unfolding u_def by blast
  define y where "y = p / w"
  have "y - x = (p - w * x) / w" using assms(1) by (simp add: y_def field_simps)
  then have "\<bar>y - x\<bar> = \<bar>p - w * x\<bar> / w" using assms(1) by (simp add: abs_divide)
  also have "\<dots> \<le> (u * \<bar>w * x\<bar>) / w"
    using p(2) assms(1) by (intro divide_right_mono) simp_all
  also have "\<dots> = u * \<bar>x\<bar>" using assms(1) by (simp add: abs_mult)
  finally have yx: "\<bar>y - x\<bar> \<le> u * \<bar>x\<bar>" .
  have ux: "u * \<bar>x\<bar> \<le> (1/2) * \<bar>x\<bar>"
    using u(2) by (intro mult_right_mono) simp_all
  have e1: "(2::real) powi (emin + 1) = 2 * 2 powi emin"
    using power_int_add [of "2::real" emin 1] by simp
  have e2: "(2::real) powi (emax - 1) = 2 * 2 powi (emax - 2)"
    using power_int_add [of "2::real" "emax - 2" 1] by simp
  have ylo: "2 powi emin \<le> \<bar>y\<bar>" using yx ux assms(4) e1 by linarith
  have yhi: "\<bar>y\<bar> \<le> 2 powi (emax - 1)" using yx ux assms(5) e2 by linarith
  obtain r where r: "fl y = Fin r" "\<bar>r - y\<bar> \<le> u * \<bar>y\<bar>"
    using fl_finite_err [OF ylo yhi] unfolding u_def by blast
  have "\<bar>y\<bar> \<le> 2 * \<bar>x\<bar>" using yx ux by linarith
  then have "u * \<bar>y\<bar> \<le> u * (2 * \<bar>x\<bar>)"
    using u(1) by (intro mult_left_mono) simp_all
  then have "\<bar>r - x\<bar> \<le> 3 * u * \<bar>x\<bar>" using r(2) yx by linarith
  also have "\<dots> \<le> 4 * u * \<bar>x\<bar>" using u(1) by (simp add: mult_right_mono)
  finally have "\<bar>r - x\<bar> \<le> 2 powi (- 51) * \<bar>x\<bar>" by (simp only: u(3))
  moreover have "np_mul64 (Fin w) (Fin x) = Fin p" "np_div64 (Fin p) (Fin w) = Fin r"
    using p(1) r(1) assms(1) by (simp_all add: y_def)
  ultimately show ?thesis by blast
qed

section \<open>Binary64: the sample inputs\<close>

lemma tenth_product: "np_mul64 (Fin w500) (Fin tenth) = Fin p500"
proof -
  let ?x = "7014813832872459 / 2 ^ 53 * (7205759403792794 / 2 ^ 56) :: real"
  have a: "2 powi (- 4) \<le> \<bar>?x\<bar>" "\<bar>?x\<bar> < 2 powi (- 4 + 1)" "emin \<le> - 4"
    by (simp_all add: emin_def power_int_minus)
  have l: "real_of_int 5611851066297968 - 1/2 < ?x / 2 powi (- 4 - 52)"
    by (simp add: power_int_minus)
  have h: "?x / 2 powi (- 4 - 52) < real_of_int 5611851066297968 + 1/2"
    by (simp add: power_int_minus)
  have b: "\<bar>real_of_int 5611851066297968 * 2 powi (- 4 - 52)\<bar> < 2 powi emax"
    by (simp add: emax_def power_int_minus)
  show ?thesis
    using fl_eval [OF a l h b] by (simp add: power_int_minus w500_def tenth_def p500_def)
qed

lemma tenth_quotient: "np_div64 (Fin p500) (Fin w500) = Fin tenth_up"
proof -
  let ?x = "5611851066297968 / 2 ^ 56 / (7014813832872459 / 2 ^ 53) :: real"
  have a: "2 powi (- 4) \<le> \<bar>?x\<bar>" "\<bar>?x\<bar> < 2 powi (- 4 + 1)" "emin \<le> - 4"
    by (simp_all add: emin_def power_int_minus)
  have l: "real_of_int 7205759403792795 - 1/2 < ?x / 2 powi (- 4 - 52)"
    by (simp add: power_int_minus)
  have h: "?x / 2 powi (- 4 - 52) < real_of_int 7205759403792795 + 1/2"
    by (simp add: power_int_minus)
  have b: "\<bar>real_of_int 7205759403792795 * 2 powi (- 4 - 52)\<bar> < 2 powi emax"
    by (simp add: emax_def power_int_minus)
  show ?thesis
    using fl_eval [OF a l h b] by (simp add: power_int_minus w500_def tenth_up_def p500_def)
qed

lemma fl_tenth: "fl (1 / 10) = Fin tenth"
proof -
  let ?x = "1 / 10 :: real"
  have a: "2 powi (- 4) \<le> \<bar>?x\<bar>" "\<bar>?x\<bar> < 2 powi (- 4 + 1)" "emin \<le> - 4"
    by (simp_all add: emin_def power_int_minus)
  have l: "real_of_int 7205759403792794 - 1/2 < ?x / 2 powi (- 4 - 52)"
    by (simp add: power_int_minus)
  have h: "?x / 2 powi (- 4 - 52) < real_of_int 7205759403792794 + 1/2"
    by (simp add: power_int_minus)
  have b: "\<bar>real_of_int 7205759403792794 * 2 powi (- 4 - 52)\<bar> < 2 powi emax"
    by (simp add: emax_def power_int_minus)
  show ?thesis
    using fl_eval [OF a l h b] by (simp add: power_int_minus tenth_def)
qed

lemma tenth_up_neq: "tenth_up - tenth = 1 / 2 ^ 56"
  by (simp add: tenth_up_def tenth_def)

lemma qpe_ground64_tenth: "qpe_ground64 [500] g_tenth = Inr [[Fin tenth_up]]"
proof -
  have w: "weighting64 [500] = [Fin w500]"
    by (simp only: weighting64_def list.map weight64_500)
  show ?thesis
    unfolding qpe_ground64_def w
    by (simp add: aggregate64_def weighted_levels64_def broadcast_dim_def nansum64_axis0_def
        nansum64_def add_reduce_def np_sum64_def g_tenth_def tenth_product tenth_quotient
        del: np_mul64.simps np_div64.simps)
qed

lemma qpe_ground64_allnan: "qpe_ground64 [2000000, 3000000] g_allnan = Inr [[NaN]]"
proof -
  have w: "weighting64 [2000000, 3000000] = [Fin 0, Fin 0]"
    by (simp only: weighting64_def list.map weight64_values)
  have two: "[0..<2] = [0, 1]" by (simp add: upt_rec)
  show ?thesis
    unfolding qpe_ground64_def w
    by (simp add: aggregate64_def weighted_levels64_def broadcast_dim_def nansum64_axis0_def
        nansum64_def add_reduce_def np_sum64_def g_allnan_def two)
qed

lemma qpe_ground64_five: "qpe_ground64 [2000000] g_five = Inr [[NaN]]"
proof -
  have w: "weighting64 [2000000] = [Fin 0]"
    by (simp only: weighting64_def list.map weight64_values)
  show ?thesis
    unfolding qpe_ground64_def w
    by (simp add: aggregate64_def weighted_levels64_def broadcast_dim_def nansum64_axis0_def
        nansum64_def add_reduce_def np_sum64_def g_five_def)
qed

lemma qpe_ground64_negative: "qpe_ground64 [- 2000000] g_five = Inr [[NaN]]"
proof -
  have w: "weighting64 [- 2000000] = [PInf]"
    by (simp only: weighting64_def list.map weight64_negative)
  show ?thesis
    unfolding qpe_ground64_def w
    by (simp add: aggregate64_def weighted_levels64_def broadcast_dim_def nansum64_axis0_def
        nansum64_def add_reduce_def np_sum64_def g_five_def)
qed

lemma qpe_ground64_pm: "qpe_ground64 [0, 500] g_pm = Inr [[NaN]]"
proof -
  have w: "weighting64 [0, 500] = [Fin 1, Fin w500]"
    by (simp only: weighting64_def list.map weight64_values weight64_500)
  have pos: "0 < w500" by (simp add: w500_def)
  have two: "[0..<2] = [0, 1]" by (simp add: upt_rec)
  show ?thesis
    unfolding qpe_ground64_def w using pos
    by (simp add: aggregate64_def weighted_levels64_def broadcast_dim_def nansum64_axis0_def
        nansum64_def add_reduce_def np_sum64_def g_pm_def two)
qed

section \<open>The aggregated surface\<close>



text \<open>
  At the altitudes 2000000 and 3000000 both weights underflow to 0.0, their sum is
  0.0, and the cell of a column that is undefined on both levels is 0.0/0.0,
  not-a-number, not 0.
\<close>

theorem all_undefined_counterexample:
  "nz g_allnan = 2 \<and> cells g_allnan ! 0 ! 0 ! 0 = NaN \<and> cells g_allnan ! 1 ! 0 ! 0 = NaN
   \<and> weighting64 [2000000, 3000000] = [Fin 0, Fin 0]
   \<and> qpe_ground64 [2000000, 3000000] g_allnan = Inr [[NaN]]"
proof -
  have w: "weighting64 [2000000, 3000000] = [Fin 0, Fin 0]"
    by (simp only: weighting64_def list.map weight64_values)
  show ?thesis
    by (simp add: w qpe_ground64_allnan) (simp add: g_allnan_def)
qed

text \<open>
  C2, as the code has it: at a horizontal cell (i, j) whose value is undefined on
  every level, the surface is 0 and not undefined, provided the sum of the weights
  is not zero, that is, unless every weight has underflowed to 0.0.
\<close>

theorem all_undefined_column_is_zero64:
  assumes "wf_grid g" and "1 \<le> nz g" and "length z = nz g"
    and "i < ny g" and "j < nx g"
    and "\<forall>k < nz g. cells g ! k ! i ! j = NaN"
    and "np_sum64 (weighting64 z) \<noteq> Fin 0"
  shows "\<exists>s. qpe_ground64 z g = Inr s \<and> s ! i ! j = Fin 0 \<and> s ! i ! j \<noteq> NaN"
proof -
  have col: "\<forall>x \<in> set (map (\<lambda>x. if x = NaN then Fin 0 else x)
               (map (\<lambda>k. np_mul64 (weighting64 z ! k) (cells g ! k ! i ! j)) [0..<nz g])). x = Fin 0"
    using assms(6) by auto
  have "nansum64 (map (\<lambda>k. np_mul64 (weighting64 z ! k) (cells g ! k ! i ! j)) [0..<nz g]) = Fin 0"
    unfolding nansum64_def by (rule add_reduce_zeros [OF col])
  moreover have "np_div64 (Fin 0) (np_sum64 (weighting64 z)) = Fin 0"
    using np_sum64_weighting64_nonneg assms(7) by (rule zero_over_nonneg)
  ultimately show ?thesis
    unfolding qpe_ground64_cells [OF assms(3)] using assms(4,5) by simp
qed

theorem all_undefined_column_is_zero64_witness:
  "wf_grid g_allnan \<and> 1 \<le> nz g_allnan \<and> length [0, 2000000 :: real] = nz g_allnan
   \<and> 0 < ny g_allnan \<and> 0 < nx g_allnan \<and> nz g_allnan = 2
   \<and> cells g_allnan ! 0 ! 0 ! 0 = NaN \<and> cells g_allnan ! 1 ! 0 ! 0 = NaN
   \<and> np_sum64 (weighting64 [0, 2000000]) = Fin 1
   \<and> (\<exists>s. qpe_ground64 [0, 2000000] g_allnan = Inr s \<and> s ! 0 ! 0 = Fin 0 \<and> s ! 0 ! 0 \<noteq> NaN)"
proof -
  have h1: "wf_grid g_allnan" by (simp add: wf_grid_def g_allnan_def)
  have h2: "1 \<le> nz g_allnan" and h3: "length [0, 2000000 :: real] = nz g_allnan"
    and h4: "0 < ny g_allnan" and h5: "0 < nx g_allnan" and n: "nz g_allnan = 2"
    and c: "cells g_allnan ! 0 ! 0 ! 0 = NaN" "cells g_allnan ! 1 ! 0 ! 0 = NaN"
    by (simp_all add: g_allnan_def)
  have h6: "\<forall>k < nz g_allnan. cells g_allnan ! k ! 0 ! 0 = NaN"
    using c by (simp add: n less_Suc_eq numeral_2_eq_2)
  have h7: "np_sum64 (weighting64 [0, 2000000]) \<noteq> Fin 0"
    by (simp add: np_sum64_partial)
  show ?thesis
    using all_undefined_column_is_zero64 [OF h1 h2 h3 h4 h5 h6 h7] h1 h2 h3 h4 h5 n c np_sum64_partial
    by simp
qed

section \<open>Failures\<close>

text \<open>
  The notebook validates nothing. Altitudes of length 1 are broadcast over a grid of
  two levels, and an empty stack gives a surface of not-a-number: neither raises.
\<close>

theorem no_validation_counterexample:
  "length [0 :: real] \<noteq> nz g_two \<and> wf_grid g_two \<and> qpe_ground [0] g_two = Inr [[Fin 4]]
   \<and> nz g_empty = 0 \<and> wf_grid g_empty \<and> qpe_ground [] g_empty = Inr [[NaN, NaN]]"
  by (simp add: qpe_ground_def aggregate_def weighted_levels_def broadcast_dim_def
      nansum_axis0_def nansum_def np_sum_def weighting_def weighting_at_def
      g_two_def g_empty_def wf_grid_def numeral_2_eq_2 upt_rec)

text \<open>
  C3, as the code has it: the only failure is numpy's broadcasting error, raised
  exactly when the number of altitudes differs from the number of levels and neither
  of the two is 1, whatever the scale; with matching lengths nothing fails; and for
  an empty stack with no altitudes every cell of the surface is not-a-number.
\<close>

theorem fails_only_on_broadcast_mismatch:
  "(qpe_ground_at scale z g = Inl BroadcastError
      \<longleftrightarrow> length z \<noteq> nz g \<and> length z \<noteq> 1 \<and> nz g \<noteq> 1)
   \<and> (length z = nz g \<longrightarrow> (\<exists>s. qpe_ground_at scale z g = Inr s))
   \<and> (nz g = 0 \<and> z = [] \<longrightarrow>
        qpe_ground_at scale z g = Inr (replicate (ny g) (replicate (nx g) NaN)))"
proof (intro conjI impI)
  show iff: "qpe_ground_at scale z g = Inl BroadcastError
      \<longleftrightarrow> length z \<noteq> nz g \<and> length z \<noteq> 1 \<and> nz g \<noteq> 1"
    by (simp add: qpe_ground_at_def aggregate_fails_iff length_weighting_at)
  show "\<exists>s. qpe_ground_at scale z g = Inr s" if "length z = nz g"
  proof (cases "qpe_ground_at scale z g")
    case (Inl e)
    then have "qpe_ground_at scale z g = Inl BroadcastError" by (cases e) simp
    with iff that show ?thesis by simp
  next
    case (Inr s)
    then show ?thesis by blast
  qed
  show "qpe_ground_at scale z g = Inr (replicate (ny g) (replicate (nx g) NaN))"
    if "nz g = 0 \<and> z = []"
    using that
    by (simp add: qpe_ground_at_def aggregate_def weighted_levels_def broadcast_dim_def
        nansum_axis0_def nansum_def np_sum_def weighting_at_def map_replicate_const)
qed

theorem fails_only_on_broadcast_mismatch_witness:
  "length [0, 1000, 2000 :: real] \<noteq> nz g_two \<and> qpe_ground_at (- 1000) [0, 1000, 2000] g_two = Inl BroadcastError
   \<and> length [0, 1000 :: real] = nz g_two \<and> (\<exists>s. qpe_ground_at (- 1000) [0, 1000] g_two = Inr s)
   \<and> nz g_empty = 0 \<and> qpe_ground_at 1000 [] g_empty = Inr [[NaN, NaN]]"
  using fails_only_on_broadcast_mismatch [of "- 1000" "[0, 1000, 2000]" g_two]
    fails_only_on_broadcast_mismatch [of "- 1000" "[0, 1000]" g_two]
    fails_only_on_broadcast_mismatch [of 1000 "[]" g_empty]
  by (simp add: g_two_def g_empty_def numeral_2_eq_2)

section \<open>Properties of the weights\<close>




section \<open>Special grids\<close>

text \<open>
  A single level at altitude 500 holding the binary64 number nearest to 0.1: the
  surface holds the next binary64 number above it, 0.10000000000000002.
\<close>

theorem single_level_counterexample:
  "nz g_tenth = 1 \<and> cells g_tenth ! 0 ! 0 ! 0 = Fin tenth
   \<and> tenth = 7205759403792794 / 2 ^ 56 \<and> fl (1 / 10) = Fin tenth
   \<and> qpe_ground64 [500] g_tenth = Inr [[Fin tenth_up]]
   \<and> tenth_up - tenth = 1 / 2 ^ 56"
  using fl_tenth qpe_ground64_tenth tenth_up_neq
  by (simp add: g_tenth_def) (simp add: tenth_def)

text \<open>
  C5, as the code has it: for a grid with exactly one level, the surface at a cell
  with a defined value x differs from x by at most 2^-51 |x|, when the weight is a
  positive finite number and neither the value nor its product with the weight
  leaves the normal range of binary64. It need not be bit-identical.
\<close>

theorem single_level_rounding:
  assumes "wf_grid g" and "nz g = 1" and "i < ny g" and "j < nx g"
    and "cells g ! 0 ! i ! j = Fin x" and "weighting64 z = [Fin w]" and "0 < w"
    and "2 powi emin \<le> \<bar>w * x\<bar>" and "\<bar>w * x\<bar> \<le> 2 powi (emax - 1)"
    and "2 powi (emin + 1) \<le> \<bar>x\<bar>" and "\<bar>x\<bar> \<le> 2 powi (emax - 2)"
  shows "\<exists>s r. qpe_ground64 z g = Inr s \<and> s ! i ! j = Fin r
              \<and> \<bar>r - x\<bar> \<le> 2 powi (- 51) * \<bar>x\<bar>"
proof -
  have "length (weighting64 z) = 1" by (simp add: assms(6))
  then have len: "length z = nz g" by (simp add: length_weighting64 assms(2))
  obtain p r where p: "np_mul64 (Fin w) (Fin x) = Fin p"
    and r: "np_div64 (Fin p) (Fin w) = Fin r" "\<bar>r - x\<bar> \<le> 2 powi (- 51) * \<bar>x\<bar>"
    using round_trip_error [OF assms(7-11)] by blast
  have "np_div64 (nansum64 (map (\<lambda>k. np_mul64 (weighting64 z ! k) (cells g ! k ! i ! j)) [0..<nz g]))
          (np_sum64 (weighting64 z)) = Fin r"
    by (simp add: assms(2,5,6) nansum64_def add_reduce_def np_sum64_def p r(1)
        del: np_mul64.simps np_div64.simps)
  then show ?thesis
    unfolding qpe_ground64_cells [OF len] using assms(3,4) r(2) by simp
qed

theorem single_level_rounding_witness:
  "wf_grid g_tenth \<and> nz g_tenth = 1 \<and> 0 < ny g_tenth \<and> 0 < nx g_tenth
   \<and> cells g_tenth ! 0 ! 0 ! 0 = Fin tenth \<and> weighting64 [500] = [Fin w500] \<and> 0 < w500
   \<and> 2 powi emin \<le> \<bar>w500 * tenth\<bar> \<and> \<bar>w500 * tenth\<bar> \<le> 2 powi (emax - 1)
   \<and> 2 powi (emin + 1) \<le> \<bar>tenth\<bar> \<and> \<bar>tenth\<bar> \<le> 2 powi (emax - 2)
   \<and> (\<exists>s r. qpe_ground64 [500] g_tenth = Inr s \<and> s ! 0 ! 0 = Fin r
              \<and> \<bar>r - tenth\<bar> \<le> 2 powi (- 51) * \<bar>tenth\<bar>)"
proof -
  have h1: "wf_grid g_tenth" by (simp add: wf_grid_def g_tenth_def)
  have h2: "nz g_tenth = 1" and h3: "0 < ny g_tenth" and h4: "0 < nx g_tenth"
    and h5: "cells g_tenth ! 0 ! 0 ! 0 = Fin tenth"
    by (simp_all add: g_tenth_def)
  have h6: "weighting64 [500] = [Fin w500]"
    by (simp only: weighting64_def list.map weight64_500)
  have h7: "0 < w500" by (simp add: w500_def)
  have lo: "(2::real) powi emin \<le> 1 / 2 ^ 10" "(2::real) powi (emin + 1) \<le> 1 / 2 ^ 10"
    using pow2_le_iff [of emin "- 10"] pow2_le_iff [of "emin + 1" "- 10"]
    by (simp_all add: emin_def power_int_minus divide_simps)
  have hi: "(1::real) \<le> 2 powi (emax - 1)" "(1::real) \<le> 2 powi (emax - 2)"
    using pow2_le_iff [of 0 "emax - 1"] pow2_le_iff [of 0 "emax - 2"]
    by (simp_all add: emax_def)
  have v: "1 / 2 ^ 10 \<le> \<bar>w500 * tenth\<bar>" "\<bar>w500 * tenth\<bar> \<le> 1"
    "1 / 2 ^ 10 \<le> \<bar>tenth\<bar>" "\<bar>tenth\<bar> \<le> 1"
    by (simp_all add: w500_def tenth_def)
  have h8: "2 powi emin \<le> \<bar>w500 * tenth\<bar>" and h9: "\<bar>w500 * tenth\<bar> \<le> 2 powi (emax - 1)"
    and h10: "2 powi (emin + 1) \<le> \<bar>tenth\<bar>" and h11: "\<bar>tenth\<bar> \<le> 2 powi (emax - 2)"
    using lo hi v by linarith+
  show ?thesis
    using single_level_rounding [OF h1 h2 h3 h4 h5 h6 h7 h8 h9 h10 h11]
      h1 h2 h3 h4 h5 h6 h7 h8 h9 h10 h11
    by blast
qed

section \<open>The worked example\<close>

lemma exp_neg_half_bounds:
  "(6065305 / 10000000 :: real) < exp (- (1/2))" "exp (- (1/2)) < (6065308 / 10000000 :: real)"
proof -
  obtain t :: real where t: "\<bar>t\<bar> \<le> \<bar>- (1/2)\<bar>"
    and e: "exp (- (1/2)) = (\<Sum>m<8. ((- (1/2)) ^ m) / fact m) + (exp t / fact 8) * (- (1/2)) ^ 8"
    using Maclaurin_exp_le [of "- (1/2)" 8] by blast
  have s: "(\<Sum>m<8. ((- (1/2 :: real)) ^ m) / fact m) = 78257 / 129024"
    by (simp add: lessThan_Suc eval_nat_numeral)
  have "t \<le> 1/2" using t by simp
  then have "exp t \<le> exp (1/2)" by simp
  also have "\<dots> \<le> 1 + 1/2 + (1/2)\<^sup>2"
    by (rule exp_bound) simp_all
  finally have up: "exp t \<le> 2" by (simp add: power2_eq_square)
  have lo: "0 < exp t" by simp
  have r: "(exp t / fact 8) * (- (1/2)) ^ 8 = exp t / 10321920"
    by (simp add: eval_nat_numeral)
  have val: "exp (- (1/2)) = 78257 / 129024 + exp t / 10321920"
    unfolding e s r ..
  have rem: "0 < exp t / 10321920" "exp t / 10321920 \<le> 2 / 10321920"
    using up by simp_all
  show "(6065305 / 10000000 :: real) < exp (- (1/2))"
    using val rem by linarith
  show "exp (- (1/2)) < (6065308 / 10000000 :: real)"
    using val rem by linarith
qed

lemma exp_neg_one_bounds:
  "(367879 / 1000000 :: real) < exp (- 1)" "exp (- 1) < (367880 / 1000000 :: real)"
proof -
  have sq: "exp (- 1 :: real) = exp (- (1/2)) * exp (- (1/2))"
    by (simp add: exp_add [symmetric])
  have a: "(6065305 / 10000000 :: real) * (6065305 / 10000000) < exp (- (1/2)) * exp (- (1/2))"
    by (rule mult_strict_mono) (use exp_neg_half_bounds in simp_all)
  have b: "exp (- (1/2)) * exp (- (1/2)) < (6065308 / 10000000 :: real) * (6065308 / 10000000)"
    by (rule mult_strict_mono) (use exp_neg_half_bounds in simp_all)
  show "(367879 / 1000000 :: real) < exp (- 1)" using a unfolding sq by simp
  show "exp (- 1) < (367880 / 1000000 :: real)" using b unfolding sq by simp
qed

lemma weighting_example: "weighting [0, 1000, 2000] = [1, exp (- (1/2)), exp (- 1)]"
  by (simp add: weighting_def weighting_at_def)

lemma qpe_ground_example:
  "qpe_ground [0, 1000, 2000] g_example
     = Inr [[Fin 10, Fin (10 / (1 + exp (- (1/2)) + exp (- 1)))]]"
proof -
  have d: "1 + exp (- (1/2)) + exp (- 1) \<noteq> (0::real)"
    using exp_gt_zero [of "- (1/2) :: real"] exp_gt_zero [of "- 1 :: real"] by linarith
  have u: "(10 + exp (- (1/2)) * 10 + exp (- 1) * 10) / (1 + exp (- (1/2)) + exp (- 1)) = (10::real)"
    using d by (simp add: field_simps)
  have one: "[0..<3] = [0, 1, 2]" by (simp add: upt_rec)
  have two: "[0..<2] = [0, 1]" by (simp add: upt_rec)
  show ?thesis
    unfolding qpe_ground_def weighting_example
    using d u
    by (simp add: aggregate_def weighted_levels_def broadcast_dim_def nansum_axis0_def
        nansum_def np_sum_def g_example_def one two add.assoc)
qed

text \<open>
  For altitudes 0, 1000, 2000 and the column 10, undefined, undefined the surface is
  10 / (1 + exp (-1/2) + exp (-1)), which is below 5.07: it is not 5.09 to two
  decimals, nor within 0.02 of it.
\<close>

theorem example_value_counterexample:
  "qpe_ground [0, 1000, 2000] g_example
     = Inr [[Fin 10, Fin (10 / (1 + exp (- (1/2)) + exp (- 1)))]]
   \<and> \<not> \<bar>10 / (1 + exp (- (1/2)) + exp (- 1)) - 509 / 100\<bar> \<le> (2 / 100 :: real)"
proof -
  let ?d = "1 + exp (- (1/2)) + exp (- 1) :: real"
  have d: "1974 / 1000 < ?d"
    using exp_neg_half_bounds(1) exp_neg_one_bounds(1) by linarith
  then have "10 / ?d < 10 / (1974 / 1000)"
    by (intro divide_strict_left_mono) simp_all
  then have "10 / ?d < 507 / 100" by simp
  then have "\<not> \<bar>10 / ?d - 509 / 100\<bar> \<le> (2 / 100 :: real)" by linarith
  then show ?thesis using qpe_ground_example by simp
qed

text \<open>
  C7, with the last figure as the code gives it: for altitudes 0, 1000, 2000 and
  scale 1000 the weights are 1, 0.6065 and 0.3679 to four decimals; a column of
  three values 10 aggregates to 10; and the column 10, undefined, undefined
  aggregates to 10 / (1 + 0.6065... + 0.3679...), which is 5.06 to two decimals.
\<close>

theorem example_values:
  "weighting [0, 1000, 2000] ! 0 = 1
   \<and> \<bar>weighting [0, 1000, 2000] ! 1 - 6065 / 10000\<bar> < 5 / 100000
   \<and> \<bar>weighting [0, 1000, 2000] ! 2 - 3679 / 10000\<bar> < 5 / 100000
   \<and> qpe_ground [0, 1000, 2000] g_example
        = Inr [[Fin 10, Fin (10 / (1 + weighting [0, 1000, 2000] ! 1 + weighting [0, 1000, 2000] ! 2))]]
   \<and> \<bar>10 / (1 + weighting [0, 1000, 2000] ! 1 + weighting [0, 1000, 2000] ! 2) - 506 / 100\<bar>
        < (5 / 1000 :: real)"
proof -
  let ?d = "1 + exp (- (1/2)) + exp (- 1) :: real"
  have lo: "19744 / 10000 < ?d" and hi: "?d < 19745 / 10000"
    using exp_neg_half_bounds exp_neg_one_bounds by linarith+
  have "10 / ?d < 10 / (19744 / 10000)"
    using lo by (intro divide_strict_left_mono) simp_all
  then have a: "10 / ?d < 5065 / 1000" by simp
  have "10 / (19745 / 10000) < 10 / ?d"
    using lo hi by (intro divide_strict_left_mono) simp_all
  then have b: "5064 / 1000 < 10 / ?d" by simp
  have v: "\<bar>10 / ?d - 506 / 100\<bar> < (5 / 1000 :: real)"
    using a b by linarith
  have w1: "\<bar>exp (- (1/2)) - 6065 / 10000\<bar> < (5 / 100000 :: real)"
    using exp_neg_half_bounds by linarith
  have w2: "\<bar>exp (- 1) - 3679 / 10000\<bar> < (5 / 100000 :: real)"
    using exp_neg_one_bounds by linarith
  show ?thesis
    using v w1 w2 qpe_ground_example by (simp add: weighting_example)
qed

section \<open>Definedness and homogeneity\<close>

text \<open>
  Three ways to an undefined cell without an undefined input: at altitude 2000000
  the weight underflows to 0.0 and the value 5 aggregates to 0.0/0.0; at altitude
  -2000000 the weight overflows and it aggregates to inf/inf; and a column holding
  both infinities sums to not-a-number.
\<close>

theorem undefined_surface_counterexample:
  "nz g_five = 1 \<and> cells g_five ! 0 ! 0 ! 0 = Fin 5
   \<and> weighting64 [2000000] = [Fin 0] \<and> qpe_ground64 [2000000] g_five = Inr [[NaN]]
   \<and> weighting64 [- 2000000] = [PInf] \<and> qpe_ground64 [- 2000000] g_five = Inr [[NaN]]
   \<and> nz g_pm = 2 \<and> cells g_pm ! 0 ! 0 ! 0 = PInf \<and> cells g_pm ! 1 ! 0 ! 0 = NInf
   \<and> qpe_ground64 [0, 500] g_pm = Inr [[NaN]]"
proof -
  have w: "weighting64 [2000000] = [Fin 0]" "weighting64 [- 2000000] = [PInf]"
    by (simp_all only: weighting64_def list.map weight64_values weight64_negative)
  show ?thesis
    by (simp add: w qpe_ground64_five qpe_ground64_negative qpe_ground64_pm)
       (simp add: g_five_def g_pm_def)
qed

text \<open>
  C9, as the code has it: for nz >= 1, cells that are undefined or finite binary64
  numbers, non-negative altitudes and weights whose sum is a finite number other
  than zero, no cell of the surface is not-a-number, also where some (or all) levels
  of the column are undefined: a missing value never reaches the output.
\<close>

theorem surface_cells_defined64:
  assumes "wf_grid g" and "in_range g" and "1 \<le> nz g" and "length z = nz g"
    and "\<forall>a \<in> set z. 0 \<le> a"
    and "np_sum64 (weighting64 z) = Fin d" and "d \<noteq> 0"
  shows "\<exists>s. qpe_ground64 z g = Inr s \<and> length s = ny g
            \<and> (\<forall>row \<in> set s. length row = nx g \<and> (\<forall>x \<in> set row. x \<noteq> NaN))"
proof -
  have cell: "np_div64 (nansum64 (map (\<lambda>k. np_mul64 (weighting64 z ! k) (cells g ! k ! i ! j))
                                [0..<nz g])) (np_sum64 (weighting64 z)) \<noteq> NaN"
    if ij: "i < ny g" "j < nx g" for i j
  proof -
    have "\<forall>x \<in> set (map (\<lambda>x. if x = NaN then Fin 0 else x)
               (map (\<lambda>k. np_mul64 (weighting64 z ! k) (cells g ! k ! i ! j)) [0..<nz g])). \<exists>r. x = Fin r"
    proof -
      have "np_mul64 (weighting64 z ! k) (cells g ! k ! i ! j) = NaN
            \<or> (\<exists>r. np_mul64 (weighting64 z ! k) (cells g ! k ! i ! j) = Fin r)"
        if k: "k < nz g" for k
      proof -
        have "0 \<le> z ! k" using assms(4,5) k by simp
        then obtain w where w: "weight64 (z ! k) = Fin w" "0 \<le> w" "w \<le> 1"
          using weight64_unit by blast
        have "weighting64 z ! k = Fin w"
          using k assms(4) w(1) by (simp add: weighting64_nth)
        then show ?thesis
          using weighted_cell_finite [OF w(2,3) cell_in_range [OF assms(1,2) k ij]] by simp
      qed
      then show ?thesis by fastforce
    qed
    then have "nansum64 (map (\<lambda>k. np_mul64 (weighting64 z ! k) (cells g ! k ! i ! j)) [0..<nz g]) \<noteq> NaN"
      unfolding nansum64_def by (rule add_reduce_not_nan)
    then show ?thesis
      unfolding assms(6) using assms(7) by (rule np_div64_not_nan)
  qed
  show ?thesis
    unfolding qpe_ground64_cells [OF assms(4)] using cell by auto
qed

theorem surface_cells_defined64_witness:
  "wf_grid g_demo \<and> in_range g_demo \<and> 1 \<le> nz g_demo \<and> length [0, 2000000 :: real] = nz g_demo
   \<and> (0::real) \<le> 0 \<and> (0::real) \<le> 2000000
   \<and> np_sum64 (weighting64 [0, 2000000]) = Fin 1 \<and> (1::real) \<noteq> 0
   \<and> cells g_demo ! 0 ! 0 ! 0 = Fin 3 \<and> cells g_demo ! 1 ! 0 ! 0 = NaN
   \<and> (\<exists>s. qpe_ground64 [0, 2000000] g_demo = Inr s \<and> length s = ny g_demo
            \<and> (\<forall>row \<in> set s. length row = nx g_demo \<and> (\<forall>x \<in> set row. x \<noteq> NaN)))"
proof -
  have h3: "1 \<le> nz g_demo" and h4: "length [0, 2000000 :: real] = nz g_demo"
    and c: "cells g_demo ! 0 ! 0 ! 0 = Fin 3" "cells g_demo ! 1 ! 0 ! 0 = NaN"
    by (simp_all add: g_demo_def)
  have h5: "\<forall>a \<in> set [0, 2000000 :: real]. 0 \<le> a" by simp
  have h7: "(1::real) \<noteq> 0" by simp
  show ?thesis
    using surface_cells_defined64 [OF wf_g_demo in_range_g_demo h3 h4 h5 np_sum64_partial h7]
      wf_g_demo in_range_g_demo h3 h4 np_sum64_partial c
    by simp
qed



end
